theory Spec2Isabelle
  imports Complex_Main "HOL-Library.Log_Nat" "HOL-Library.Word"
begin

section \<open>Thermal camera (open\_cam.py): a shallow embedding\<close>

text \<open>
  The program reads a 24 x 32 grid of temperatures from an MLX90640 sensor, rescales it to
  8-bit pixels, colours and upscales it with OpenCV and SciPy, draws text and buttons on it
  and shows it in a window, once per iteration of a loop.

  What the model keeps and what it leaves out:
  \<^item> a float64 is a value of type \<open>fl\<close>: a rational number, an infinity or NaN. The
    difference, the product and the quotient of two finite values are the exact results
    rounded to the nearest float64, ties to the even significand, with the subnormal range
    and the overflow to an infinity, as IEEE 754 has them. The special values follow IEEE 754
    as well, as numpy does (no exception on a division by zero). The sign of zero is left out.
  \<^item> the readings of the clocks are rational numbers, and so are their differences.
  \<^item> the libraries (cv2, scipy.ndimage, cmapy) are not part of the program: a call of one
    of them is recorded, with its arguments, as one more operation on the image it is applied
    to. An image is the grid it was made from and the operations applied to it, oldest first.
  \<^item> the sensor driver, the clocks, the pointer and the keyboard are inputs of an iteration.
  \<^item> printing, logging and the calls that configure the window change nothing that the
    program reads later and are left out.
\<close>

subsection \<open>float64 values and the numpy functions the program calls\<close>

datatype fl = Fin rat | PInf | NInf | NaN

text \<open>The largest finite float64.\<close>

definition float64_max :: rat where
  "float64_max = of_int ((2 ^ 53 - 1) * 2 ^ 971)"

text \<open>Rounding to float64. The exponent of a rational \<open>x\<close> other than 0 is the \<open>e\<close>
  with \<open>2 powi e \<le> \<bar>x\<bar>\<close> and \<open>\<bar>x\<bar> < 2 powi (e + 1)\<close>, read off the bit lengths of its
  numerator and denominator. A float64 has 53 significant bits and no exponent below -1022:
  the floats around \<open>x\<close> are the multiples of \<open>2 powi (e - 52)\<close>, where \<open>e\<close> is the exponent
  of \<open>x\<close>, or -1022 if that is larger. The result is the nearest of them, the one with the
  even multiplier when two are equally near, and an infinity when it lies beyond the largest
  finite float64.\<close>

definition exponent :: "rat \<Rightarrow> int" where
  "exponent x = (let (p, q) = quotient_of \<bar>x\<bar>; e = bitlen p - bitlen q
                 in if 2 powi e \<le> \<bar>x\<bar> then e else e - 1)"

definition nearest_even :: "rat \<Rightarrow> int" where
  "nearest_even y = (let n = \<lfloor>y\<rfloor>; r = y - of_int n
                     in if r < 1 / 2 \<or> (r = 1 / 2 \<and> even n) then n else n + 1)"

definition float64 :: "rat \<Rightarrow> fl" where
  "float64 x =
     (let e = max (exponent x) (- 1022);
          u = 2 powi (e - 52);
          y = of_int (nearest_even (x / u)) * u
      in if float64_max < y then PInf else if y < - float64_max then NInf else Fin y)"

fun fl_sub :: "fl \<Rightarrow> fl \<Rightarrow> fl" where
  "fl_sub NaN _ = NaN"
| "fl_sub _ NaN = NaN"
| "fl_sub (Fin a) (Fin b) = float64 (a - b)"
| "fl_sub (Fin a) PInf = NInf"
| "fl_sub (Fin a) NInf = PInf"
| "fl_sub PInf PInf = NaN"
| "fl_sub PInf _ = PInf"
| "fl_sub NInf NInf = NaN"
| "fl_sub NInf _ = NInf"

fun fl_mul :: "fl \<Rightarrow> fl \<Rightarrow> fl" where
  "fl_mul NaN _ = NaN"
| "fl_mul _ NaN = NaN"
| "fl_mul (Fin a) (Fin b) = float64 (a * b)"
| "fl_mul (Fin a) PInf = (if a = 0 then NaN else if 0 < a then PInf else NInf)"
| "fl_mul (Fin a) NInf = (if a = 0 then NaN else if 0 < a then NInf else PInf)"
| "fl_mul PInf (Fin b) = (if b = 0 then NaN else if 0 < b then PInf else NInf)"
| "fl_mul NInf (Fin b) = (if b = 0 then NaN else if 0 < b then NInf else PInf)"
| "fl_mul PInf PInf = PInf"
| "fl_mul PInf NInf = NInf"
| "fl_mul NInf PInf = NInf"
| "fl_mul NInf NInf = PInf"

text \<open>numpy divides by zero without raising: \<open>0/0\<close> is NaN, \<open>x/0\<close> an infinity.\<close>

fun fl_div :: "fl \<Rightarrow> fl \<Rightarrow> fl" where
  "fl_div NaN _ = NaN"
| "fl_div _ NaN = NaN"
| "fl_div (Fin a) (Fin b) =
     (if b = 0 then (if a = 0 then NaN else if 0 < a then PInf else NInf)
      else float64 (a / b))"
| "fl_div (Fin a) PInf = Fin 0"
| "fl_div (Fin a) NInf = Fin 0"
| "fl_div PInf (Fin b) = (if 0 \<le> b then PInf else NInf)"
| "fl_div NInf (Fin b) = (if 0 \<le> b then NInf else PInf)"
| "fl_div PInf PInf = NaN"
| "fl_div PInf NInf = NaN"
| "fl_div NInf PInf = NaN"
| "fl_div NInf NInf = NaN"

text \<open>The comparison \<open><\<close> of floats: false as soon as one side is NaN.\<close>

fun fl_lt :: "fl \<Rightarrow> fl \<Rightarrow> bool" where
  "fl_lt NaN _ = False"
| "fl_lt _ NaN = False"
| "fl_lt (Fin a) (Fin b) = (a < b)"
| "fl_lt (Fin a) PInf = True"
| "fl_lt (Fin a) NInf = False"
| "fl_lt PInf _ = False"
| "fl_lt NInf NInf = False"
| "fl_lt NInf _ = True"

text \<open>The exceptions of the program. A \<open>RuntimeError\<close> carries its arguments and, when the
  object has one, the value of its attribute \<open>message\<close>: the exceptions of Python 3 have none
  unless the code that raises them sets it.\<close>

datatype exn =
    ValueError
  | OSError
  | RuntimeError (args: "string list") (message: "string option")
  | AttributeError
  | TypeError
  | IndexError
  | ZeroDivisionError
  | OtherError string

text \<open>\<open>np.min\<close> and \<open>np.max\<close> reduce the array from the left with \<open>np.minimum\<close> and
  \<open>np.maximum\<close>, which return NaN as soon as one argument is NaN; both raise
  \<open>ValueError\<close> on an empty array.\<close>

definition np_minimum :: "fl \<Rightarrow> fl \<Rightarrow> fl" where
  "np_minimum a b = (if fl_lt a b \<or> a = NaN then a else b)"

definition np_maximum :: "fl \<Rightarrow> fl \<Rightarrow> fl" where
  "np_maximum a b = (if fl_lt b a \<or> a = NaN then a else b)"

definition np_min :: "fl list \<Rightarrow> exn + fl" where
  "np_min xs = (case xs of [] \<Rightarrow> Inl ValueError
                | x # r \<Rightarrow> Inr (fold (\<lambda>v acc. np_minimum acc v) r x))"

definition np_max :: "fl list \<Rightarrow> exn + fl" where
  "np_max xs = (case xs of [] \<Rightarrow> Inl ValueError
                | x # r \<Rightarrow> Inr (fold (\<lambda>v acc. np_maximum acc v) r x))"

text \<open>\<open>np.nan_to_num\<close>: NaN becomes 0, an infinity the largest finite float64 of its sign.\<close>

fun nan_to_num :: "fl \<Rightarrow> fl" where
  "nan_to_num NaN = Fin 0"
| "nan_to_num PInf = Fin float64_max"
| "nan_to_num NInf = Fin (- float64_max)"
| "nan_to_num (Fin q) = Fin q"

text \<open>\<open>np.uint8\<close> of a float64 array is a C cast: the fraction is dropped (towards zero).
  C defines the cast where the truncated value fits the type, that is on the open interval
  from -1 to 256; elsewhere, and on NaN and the infinities, the result is whatever the
  platform gives, the parameter \<open>ub\<close>.\<close>

type_synonym u8 = "8 word"

definition trunc :: "rat \<Rightarrow> int" where
  "trunc q = (if 0 \<le> q then \<lfloor>q\<rfloor> else \<lceil>q\<rceil>)"

fun np_uint8 :: "(fl \<Rightarrow> u8) \<Rightarrow> fl \<Rightarrow> u8" where
  "np_uint8 ub (Fin q) = (if - 1 < q \<and> q < 256 then word_of_int (trunc q) else ub (Fin q))"
| "np_uint8 ub v = ub v"

subsection \<open>Camera: the rescaling of temperatures\<close>

text \<open>\<open>__temps_to_rescaled_uints\<close>. The result has the shape (24, 32), kept here as the
  768 pixels row after row; giving an array of another size that shape raises
  \<open>ValueError\<close>.\<close>

definition rescaled :: "fl \<Rightarrow> fl \<Rightarrow> fl \<Rightarrow> fl" where
  "rescaled Tmin Tmax v = fl_div (fl_mul (fl_sub v Tmin) (Fin 255)) (fl_sub Tmax Tmin)"

definition temps_to_rescaled_uints :: "(fl \<Rightarrow> u8) \<Rightarrow> fl list \<Rightarrow> fl \<Rightarrow> fl \<Rightarrow> exn + u8 list" where
  "temps_to_rescaled_uints ub f Tmin Tmax =
     (let f' = map nan_to_num f;
          nrm = map (\<lambda>v. np_uint8 ub (rescaled Tmin Tmax v)) f'
      in if length nrm = 24 * 32 then Inr nrm else Inl ValueError)"

text \<open>The frame of the scenario: the samples 0.0, 1.0, ..., 767.0. And a platform whose
  cast gives 0 wherever C leaves it open.\<close>

definition ramp_frame :: "fl list" where
  "ramp_frame = map (\<lambda>n. Fin (of_nat n)) [0..<768]"

definition ub_zero :: "fl \<Rightarrow> u8" where
  "ub_zero v = 0"

subsection \<open>Camera: state, catalogues and the cycle operations\<close>

record camera =
  use_smoothing_filter :: bool
  colormap_index :: int
  interpolation_index :: int
  blank_image :: "fl list"
  timestamp :: rat
  temp_min :: "fl option"
  temp_max :: "fl option"
  current_frame_processed :: "bool option"

text \<open>The interpolation codes of cv2.\<close>

definition INTER_NEAREST :: int where "INTER_NEAREST = 0"
definition INTER_LINEAR :: int where "INTER_LINEAR = 1"
definition INTER_CUBIC :: int where "INTER_CUBIC = 2"
definition INTER_AREA :: int where "INTER_AREA = 3"
definition INTER_LANCZOS4 :: int where "INTER_LANCZOS4 = 4"

definition colormap_list :: "string list" where
  "colormap_list = [''jet'', ''bwr'', ''seismic'', ''coolwarm'', ''PiYG_r'', ''tab10'', ''tab20'',
                    ''gnuplot2'', ''brg'']"

definition interpolation_list :: "int list" where
  "interpolation_list = [INTER_NEAREST, INTER_LINEAR, INTER_AREA, INTER_CUBIC, INTER_LANCZOS4, 5, 6]"

definition interpolation_labels_list :: "string list" where
  "interpolation_labels_list = [''Nearest'', ''Inter Linear'', ''Inter Area'', ''Inter Cubic'',
                                ''Inter Lanczos4'', ''Pure Scipy'', ''Scipy/CV2 Mixed'']"

text \<open>The class attributes, as a new \<open>Camera\<close> has them; \<open>t0\<close> is the clock when the
  class is created.\<close>

definition new_camera :: "rat \<Rightarrow> camera" where
  "new_camera t0 =
     \<lparr> use_smoothing_filter = True, colormap_index = 0, interpolation_index = 3,
       blank_image = replicate (24 * 32) (Fin 0), timestamp = t0,
       temp_min = None, temp_max = None, current_frame_processed = None \<rparr>"

text \<open>\<open>list[i]\<close> in Python: from 0 up to the length the index counts from the front, from
  minus the length up to -1 from the back, and any other index raises \<open>IndexError\<close>.\<close>

definition py_index :: "'a list \<Rightarrow> int \<Rightarrow> exn + 'a" where
  "py_index xs i =
     (if 0 \<le> i \<and> i < int (length xs) then Inr (xs ! nat i)
      else if - int (length xs) \<le> i \<and> i < 0 then Inr (xs ! nat (int (length xs) + i))
      else Inl IndexError)"

definition colormap :: "camera \<Rightarrow> exn + string" where
  "colormap c = py_index colormap_list (colormap_index c)"

definition interpolation :: "camera \<Rightarrow> exn + int" where
  "interpolation c = py_index interpolation_list (interpolation_index c)"

definition interpolation_label :: "camera \<Rightarrow> exn + string" where
  "interpolation_label c = py_index interpolation_labels_list (interpolation_index c)"

definition cycle_colormap :: "camera \<Rightarrow> camera" where
  "cycle_colormap c =
     (let c1 = c\<lparr>colormap_index := colormap_index c + 1\<rparr>
      in if colormap_index c1 \<ge> int (length colormap_list) then c1\<lparr>colormap_index := 0\<rparr> else c1)"

definition cycle_interpolation :: "camera \<Rightarrow> camera" where
  "cycle_interpolation c =
     (let c1 = c\<lparr>interpolation_index := interpolation_index c + 1\<rparr>
      in if interpolation_index c1 \<ge> int (length interpolation_list)
         then c1\<lparr>interpolation_index := 0\<rparr> else c1)"

subsection \<open>Camera: images and the processing pipeline\<close>

text \<open>What \<open>__pull_raw_image\<close> returns is either the rescaled grid of 8-bit pixels or,
  after a fault, the float64 buffer itself.\<close>

datatype grid = Norm "u8 list" | Raw "fl list"

text \<open>The texts drawn on an image: the six lines of \<open>__add_image_text\<close>, with the value
  each one formats, and the literal strings of the window.\<close>

datatype caption =
    Tmin fl | Tmax fl | Interp string | Colormap string | Filtered bool | FPS rat
  | Label string

datatype cvop =
    Zoom nat
  | ApplyColorMap string
  | Resize "nat \<times> nat" int
  | Flip int
  | BilateralFilter nat nat nat
  | PutText caption "int \<times> int"
  | Rectangle "int \<times> int" "int \<times> int"

datatype img = Img (src: grid) (ops: "cvop list")

definition draw :: "cvop \<Rightarrow> img \<Rightarrow> img" where
  "draw operation im = Img (src im) (ops im @ [operation])"

text \<open>The inputs of one iteration of the loop: what the driver does to the buffer it is
  given (the new contents, and the exception it raises if any), the readings of the clocks
  in the order the iteration takes them, the events of the pointer delivered while the
  window waits for a key, and the key.\<close>

record env =
  getFrame :: "fl list \<Rightarrow> fl list \<times> exn option"
  time_text :: rat
  time_frame :: rat
  strftime :: string
  monotonic_save :: rat
  monotonic_update :: rat
  pointer :: "(int \<times> int \<times> int) list"
  waitKey :: int

text \<open>\<open>__pull_raw_image\<close>. The local \<open>image\<close> is the array \<open>self.blank_image\<close> itself,
  and the driver writes the frame into the array it is given: after the call the attribute
  holds what the driver wrote. \<open>ValueError\<close> and \<open>OSError\<close> are caught, wherever in the
  \<open>try\<close> block they come from; every other exception leaves the function.\<close>

definition pull_fault :: "exn \<Rightarrow> camera \<Rightarrow> camera \<times> (exn + grid)" where
  "pull_fault e c =
     (if e = ValueError \<or> e = OSError then (c, Inr (Raw (blank_image c))) else (c, Inl e))"

definition pull_raw_image :: "(fl \<Rightarrow> u8) \<Rightarrow> env \<Rightarrow> camera \<Rightarrow> camera \<times> (exn + grid)" where
  "pull_raw_image ub ev c =
     (let (buf, raised) = getFrame ev (blank_image c);
          c0 = c\<lparr>blank_image := buf\<rparr>
      in case raised of
           Some e \<Rightarrow> pull_fault e c0
         | None \<Rightarrow>
            (case np_min buf of
               Inl e \<Rightarrow> pull_fault e c0
             | Inr lo \<Rightarrow>
                (let c1 = c0\<lparr>temp_min := Some lo\<rparr>
                 in case np_max buf of
                      Inl e \<Rightarrow> pull_fault e c1
                    | Inr hi \<Rightarrow>
                       (let c2 = c1\<lparr>temp_max := Some hi\<rparr>
                        in case temps_to_rescaled_uints ub buf lo hi of
                             Inl e \<Rightarrow> pull_fault e c2
                           | Inr nrm \<Rightarrow>
                               (c2\<lparr>current_frame_processed := Some False\<rparr>, Inr (Norm nrm))))))"

text \<open>\<open>__process_raw_image\<close>: the calls it makes on the image, in the order it makes
  them.\<close>

definition process_raw_image :: "camera \<Rightarrow> grid \<Rightarrow> exn + img" where
  "process_raw_image c im =
     (let steps =
        (if interpolation_index c = 5 then
           (case colormap c of Inl e \<Rightarrow> Inl e
            | Inr cm \<Rightarrow> Inr [Zoom 25, ApplyColorMap cm])
         else if interpolation_index c = 6 then
           (case colormap c of Inl e \<Rightarrow> Inl e
            | Inr cm \<Rightarrow> Inr [Zoom 10, ApplyColorMap cm, Resize (800, 600) INTER_CUBIC])
         else
           (case colormap c of Inl e \<Rightarrow> Inl e
            | Inr cm \<Rightarrow>
               (case interpolation c of Inl e \<Rightarrow> Inl e
                | Inr m \<Rightarrow> Inr [ApplyColorMap cm, Resize (800, 600) m])))
      in case steps of
           Inl e \<Rightarrow> Inl e
         | Inr s \<Rightarrow>
             Inr (Img im (s @ [Flip 1] @
                    (if use_smoothing_filter c then [BilateralFilter 15 80 80] else []))))"

text \<open>\<open>__add_image_text\<close>. Formatting \<open>None\<close> with \<open>+.1f\<close> raises \<open>TypeError\<close>, and the
  frame rate divides by the time since the last frame.\<close>

fun put_lines :: "caption list \<Rightarrow> int \<Rightarrow> int \<Rightarrow> img \<Rightarrow> img" where
  "put_lines [] x y im = im"
| "put_lines (line # lines) x y im = put_lines lines x (y + 22) (draw (PutText line (x, y)) im)"

definition add_image_text :: "env \<Rightarrow> camera \<Rightarrow> img \<Rightarrow> exn + img" where
  "add_image_text ev c im =
     (case temp_min c of None \<Rightarrow> Inl TypeError | Some lo \<Rightarrow>
      case temp_max c of None \<Rightarrow> Inl TypeError | Some hi \<Rightarrow>
      case interpolation_label c of Inl e \<Rightarrow> Inl e | Inr lab \<Rightarrow>
      case colormap c of Inl e \<Rightarrow> Inl e | Inr cm \<Rightarrow>
      if time_text ev - timestamp c = 0 then Inl ZeroDivisionError
      else Inr (put_lines
                  [Tmin lo, Tmax hi, Interp lab, Colormap cm, Filtered (use_smoothing_filter c),
                   FPS (1 / (time_text ev - timestamp c))] 30 30 im))"

definition generate_frame_image :: "(fl \<Rightarrow> u8) \<Rightarrow> env \<Rightarrow> camera \<Rightarrow> camera \<times> (exn + img)" where
  "generate_frame_image ub ev c =
     (case pull_raw_image ub ev c of
        (c1, Inl e) \<Rightarrow> (c1, Inl e)
      | (c1, Inr g) \<Rightarrow>
         (case process_raw_image c1 g of
            Inl e \<Rightarrow> (c1, Inl e)
          | Inr im \<Rightarrow>
             (case add_image_text ev c1 im of
                Inl e \<Rightarrow> (c1, Inl e)
              | Inr im' \<Rightarrow>
                  (c1\<lparr>timestamp := time_frame ev, current_frame_processed := Some True\<rparr>,
                   Inr im'))))"

subsection \<open>CameraWindow\<close>

text \<open>The callback of a button is one of four bound methods.\<close>

datatype action = QueueSaveSnapshot | CycleColormap | CycleInterpolation | Exit

record button =
  b_text :: string
  b_start :: "int \<times> int"
  b_end :: "int \<times> int"
  callback :: action

text \<open>The state of the window, with the two places the program writes to outside itself:
  the files written by \<open>cv2.imwrite\<close> and the images given to \<open>cv2.imshow\<close>, both in the
  order of the calls.\<close>

record window =
  cam :: camera
  is_exit_requested :: bool
  current_image :: "img option"
  queue_save_snapshot :: bool
  snapshot_saved_at :: "rat option"
  buttons :: "button list"
  files :: "(string \<times> img) list"
  shown :: "img list"

definition snapshot_output_path :: string where
  "snapshot_output_path = ''./thermal_snapshots/''"

definition EVENT_LBUTTONUP :: int where "EVENT_LBUTTONUP = 4"

definition add_button :: "string \<Rightarrow> int \<times> int \<Rightarrow> int \<Rightarrow> int \<Rightarrow> action \<Rightarrow> window \<Rightarrow> window" where
  "add_button label start width height cb w =
     w\<lparr>buttons := buttons w @
        [\<lparr> b_text = label, b_start = start,
           b_end = (fst start + width, snd start + height), callback = cb \<rparr>]\<rparr>"

text \<open>\<open>CameraWindow.__init__\<close>, for the first window made: the list of buttons is a class
  attribute, empty until then.\<close>

definition new_window :: "camera \<Rightarrow> window" where
  "new_window c =
     (add_button ''Exit'' (390, 550) 70 50 Exit
     (add_button ''Interpolation'' (230, 550) 150 50 CycleInterpolation
     (add_button ''Colormap'' (90, 550) 130 50 CycleColormap
     (add_button ''Save'' (0, 550) 80 50 QueueSaveSnapshot
        \<lparr> cam = c, is_exit_requested = False, current_image = None,
          queue_save_snapshot = False, snapshot_saved_at = None, buttons = [],
          files = [], shown = [] \<rparr>))))"

text \<open>The drawing functions change the array \<open>self.current_image\<close> in place. They are called
  by the loop only, after it has stored an image there; on \<open>None\<close> the model does nothing.\<close>

definition draw_button :: "button \<Rightarrow> img \<Rightarrow> img" where
  "draw_button b im =
     draw (PutText (Label (b_text b)) (fst (b_start b) + 20, snd (b_start b) + 30))
       (draw (Rectangle (b_start b) (b_end b)) im)"

definition draw_buttons :: "window \<Rightarrow> window" where
  "draw_buttons w = w\<lparr>current_image := map_option (fold draw_button (buttons w)) (current_image w)\<rparr>"

definition update_window :: "env \<Rightarrow> window \<Rightarrow> window" where
  "update_window ev w =
     (let w1 = (case snapshot_saved_at w of
                  None \<Rightarrow> w
                | Some t \<Rightarrow>
                    if monotonic_update ev - t < 1
                    then w\<lparr>current_image :=
                            map_option (draw (PutText (Label ''Snapshot Saved!'') (30, 500)))
                              (current_image w)\<rparr>
                    else w\<lparr>snapshot_saved_at := None\<rparr>)
      in w1\<lparr>shown := shown w1 @ (case current_image w1 of None \<Rightarrow> [] | Some im \<Rightarrow> [im])\<rparr>)"

definition save_snapshot :: "env \<Rightarrow> window \<Rightarrow> window" where
  "save_snapshot ev w =
     (let filename = snapshot_output_path @ ''snapshot_'' @ strftime ev @ ''.jpg'';
          w1 = w\<lparr>files := files w @
                  (case current_image w of None \<Rightarrow> [] | Some im \<Rightarrow> [(filename, im)])\<rparr>;
          w2 = w1\<lparr>snapshot_saved_at := Some (monotonic_save ev)\<rparr>
      in w2\<lparr>queue_save_snapshot := False\<rparr>)"

text \<open>The four callbacks: \<open>__queue_save_snapshot\<close>, the two cycle methods of the camera,
  and \<open>__exit\<close>.\<close>

fun invoke :: "action \<Rightarrow> window \<Rightarrow> window" where
  "invoke QueueSaveSnapshot w = w\<lparr>queue_save_snapshot := True\<rparr>"
| "invoke CycleColormap w = w\<lparr>cam := cycle_colormap (cam w)\<rparr>"
| "invoke CycleInterpolation w = w\<lparr>cam := cycle_interpolation (cam w)\<rparr>"
| "invoke Exit w = w\<lparr>is_exit_requested := True\<rparr>"

definition inside :: "int \<Rightarrow> int \<Rightarrow> button \<Rightarrow> bool" where
  "inside x y b =
     (x > fst (b_start b) \<and> y > snd (b_start b) \<and> x < fst (b_end b) \<and> y < snd (b_end b))"

definition process_click_input :: "int \<Rightarrow> int \<Rightarrow> int \<Rightarrow> window \<Rightarrow> window" where
  "process_click_input event x y w =
     (if event \<noteq> EVENT_LBUTTONUP then w
      else fold (\<lambda>b w'. if inside x y b then invoke (callback b) w' else w') (buttons w) w)"

definition process_events :: "env \<Rightarrow> window \<Rightarrow> window" where
  "process_events ev w =
     (let w1 = fold (\<lambda>(event, x, y). process_click_input event x y) (pointer ev) w;
          key = and (waitKey ev) 255
      in if key = 27 then invoke Exit w1 else w1)"

text \<open>The body of the \<open>try\<close> block of \<open>start\<close>: one iteration. An exception leaves the
  state as the calls before it have made it.\<close>

definition tick :: "(fl \<Rightarrow> u8) \<Rightarrow> env \<Rightarrow> window \<Rightarrow> window \<times> exn option" where
  "tick ub ev w =
     (case generate_frame_image ub ev (cam w) of
        (c, Inl e) \<Rightarrow> (w\<lparr>cam := c\<rparr>, Some e)
      | (c, Inr im) \<Rightarrow>
         (let w1 = w\<lparr>cam := c, current_image := Some im\<rparr>;
              w2 = (if queue_save_snapshot w1 then save_snapshot ev w1 else draw_buttons w1);
              w3 = update_window ev w2
          in (process_events ev w3, None)))"

text \<open>\<open>start\<close>, run on the inputs of finitely many iterations. The handler reads the
  attribute \<open>message\<close> of the \<open>RuntimeError\<close> it has caught; where the object has none, that
  raises \<open>AttributeError\<close> in the handler.\<close>

datatype outcome = Running window | Exited window | Raised exn window

fun start :: "(fl \<Rightarrow> u8) \<Rightarrow> env list \<Rightarrow> window \<Rightarrow> outcome" where
  "start ub [] w = (if is_exit_requested w then Exited w else Running w)"
| "start ub (ev # evs) w =
     (if is_exit_requested w then Exited w
      else case tick ub ev w of
             (w', None) \<Rightarrow> start ub evs w'
           | (w', Some e) \<Rightarrow>
               (case e of
                  RuntimeError a m \<Rightarrow>
                    (case m of
                       None \<Rightarrow> Raised AttributeError w'
                     | Some s \<Rightarrow> if s = ''Too many retries'' then start ub evs w' else Raised e w')
                | _ \<Rightarrow> Raised e w'))"

subsection \<open>Scenarios\<close>

text \<open>Two kinds of iteration, with every clock reading \<open>t\<close>, no pointer event and no key
  (\<open>cv2.waitKey\<close> gives -1): one in which the driver fills the buffer with the frame \<open>f\<close>,
  one in which it raises \<open>e\<close> and leaves the buffer as it found it.\<close>

definition sensor_reads :: "fl list \<Rightarrow> rat \<Rightarrow> env" where
  "sensor_reads f t =
     \<lparr> getFrame = (\<lambda>buf. (f, None)), time_text = t, time_frame = t,
       strftime = ''2024-01-01_00-00-00'', monotonic_save = t, monotonic_update = t,
       pointer = [], waitKey = - 1 \<rparr>"

definition sensor_fails :: "exn \<Rightarrow> rat \<Rightarrow> env" where
  "sensor_fails e t =
     \<lparr> getFrame = (\<lambda>buf. (buf, Some e)), time_text = t, time_frame = t,
       strftime = ''2024-01-01_00-00-00'', monotonic_save = t, monotonic_update = t,
       pointer = [], waitKey = - 1 \<rparr>"

text \<open>A frame with one sample 20.0 and 767 samples 21.1, that is the float64 nearest to
  21.1.\<close>

definition float64_21_1 :: rat where
  "float64_21_1 = 2969561004297421 / 2 ^ 47"

definition two_level_frame :: "fl list" where
  "two_level_frame = Fin 20 # replicate 767 (Fin float64_21_1)"

text \<open>A frame of 768 samples 20.0, and the same frame with NaN as its first sample.\<close>

definition uniform_frame :: "fl list" where
  "uniform_frame = replicate 768 (Fin 20)"

definition nan_frame :: "fl list" where
  "nan_frame = NaN # replicate 767 (Fin 20)"

subsection \<open>Reading the operations of an image\<close>

text \<open>Which operations interpolate (the zoom of scipy, the resize of cv2), which one
  colours, and whether the colouring comes before every interpolation.\<close>

fun is_interpolation :: "cvop \<Rightarrow> bool" where
  "is_interpolation (Zoom k) = True"
| "is_interpolation (Resize dsize m) = True"
| "is_interpolation _ = False"

fun is_colormap :: "cvop \<Rightarrow> bool" where
  "is_colormap (ApplyColorMap cm) = True"
| "is_colormap _ = False"

definition colormap_first :: "cvop list \<Rightarrow> bool" where
  "colormap_first s =
     (case filter (\<lambda>x. is_colormap x \<or> is_interpolation x) s of
        [] \<Rightarrow> False
      | x # _ \<Rightarrow> is_colormap x)"

text \<open>The drawings of the window: only \<open>__draw_buttons\<close> draws rectangles, and only
  \<open>__update_window\<close> writes the text of the notification.\<close>

fun is_button_drawing :: "cvop \<Rightarrow> bool" where
  "is_button_drawing (Rectangle a b) = True"
| "is_button_drawing _ = False"

fun is_notification :: "cvop \<Rightarrow> bool" where
  "is_notification (PutText (Label s) p) = (s = ''Snapshot Saved!'')"
| "is_notification _ = False"

text \<open>The dispatch of a pointer release in the words of the specification, for comparison
  with \<open>process_click_input\<close>: the first button, in the order of declaration, whose rectangle
  holds the point strictly inside has its action invoked, and the search stops.\<close>

definition handle_pointer_release :: "int \<Rightarrow> int \<Rightarrow> window \<Rightarrow> window" where
  "handle_pointer_release x y w =
     (case filter (inside x y) (buttons w) of
        [] \<Rightarrow> w
      | b # _ \<Rightarrow> invoke (callback b) w)"

text \<open>A run of two iterations from a new window in which a save is queued: the frame
  0.0, ..., 767.0 is read at time 1, and again half a second later.\<close>

definition save_queued :: window where
  "save_queued = (new_window (new_camera 0))\<lparr>queue_save_snapshot := True\<rparr>"

definition after_save_tick :: window where
  "after_save_tick = fst (tick ub_zero (sensor_reads ramp_frame 1) save_queued)"

definition half_second_later :: window where
  "half_second_later = fst (tick ub_zero (sensor_reads ramp_frame (3 / 2)) after_save_tick)"

text \<open>The driver's exception when it gives up on the bus, as Python 3 builds it from
  \<open>RuntimeError("Too many retries")\<close>: it has no attribute \<open>message\<close>.\<close>

definition too_many_retries :: exn where
  "too_many_retries = RuntimeError [''Too many retries''] None"

text \<open>The camera after one read of the frame 0.0, ..., 767.0 by a new camera.\<close>

definition after_read :: camera where
  "after_read = fst (generate_frame_image ub_zero (sensor_reads ramp_frame 1) (new_camera 0))"

section \<open>Properties\<close>

subsection \<open>The cycle operations\<close>

lemma cycle_colormap_step:
  "0 \<le> colormap_index c \<Longrightarrow> colormap_index c < 9 \<Longrightarrow>
   cycle_colormap c = c\<lparr>colormap_index := (colormap_index c + 1) mod 9\<rparr>"
  by (cases "colormap_index c = 8") (simp_all add: cycle_colormap_def colormap_list_def Let_def)

lemma cycle_interpolation_step:
  "0 \<le> interpolation_index c \<Longrightarrow> interpolation_index c < 7 \<Longrightarrow>
   cycle_interpolation c = c\<lparr>interpolation_index := (interpolation_index c + 1) mod 7\<rparr>"
  by (cases "interpolation_index c = 6")
     (simp_all add: cycle_interpolation_def interpolation_list_def Let_def)

lemma cycle_colormap_funpow:
  "0 \<le> colormap_index c \<Longrightarrow> colormap_index c < 9 \<Longrightarrow>
   (cycle_colormap ^^ n) c = c\<lparr>colormap_index := (colormap_index c + int n) mod 9\<rparr>"
proof (induction n)
  case 0
  then show ?case by simp
next
  case (Suc n)
  have "cycle_colormap (c\<lparr>colormap_index := (colormap_index c + int n) mod 9\<rparr>)
        = c\<lparr>colormap_index := ((colormap_index c + int n) mod 9 + 1) mod 9\<rparr>"
    by (subst cycle_colormap_step) simp_all
  with Suc show ?case by (simp add: mod_simps ac_simps)
qed

lemma cycle_interpolation_funpow:
  "0 \<le> interpolation_index c \<Longrightarrow> interpolation_index c < 7 \<Longrightarrow>
   (cycle_interpolation ^^ n) c = c\<lparr>interpolation_index := (interpolation_index c + int n) mod 7\<rparr>"
proof (induction n)
  case 0
  then show ?case by simp
next
  case (Suc n)
  have "cycle_interpolation (c\<lparr>interpolation_index := (interpolation_index c + int n) mod 7\<rparr>)
        = c\<lparr>interpolation_index := ((interpolation_index c + int n) mod 7 + 1) mod 7\<rparr>"
    by (subst cycle_interpolation_step) simp_all
  with Suc show ?case by (simp add: mod_simps ac_simps)
qed

text \<open>
  Claim C7. From an index in the range of its catalogue, \<open>cycle_colormap\<close> and
  \<open>cycle_interpolation\<close> each replace their index by its successor modulo the length of the
  catalogue and change nothing else; the new index is in range again; and as many calls as
  the catalogue has entries give back the starting state. Both are total functions: the
  methods contain nothing that can raise.
\<close>

theorem cycle_advances_modulo_length:
  "(0 \<le> colormap_index c \<and> colormap_index c < int (length colormap_list) \<longrightarrow>
      cycle_colormap c
        = c\<lparr>colormap_index := (colormap_index c + 1) mod int (length colormap_list)\<rparr>
    \<and> 0 \<le> colormap_index (cycle_colormap c)
    \<and> colormap_index (cycle_colormap c) < int (length colormap_list)
    \<and> (cycle_colormap ^^ length colormap_list) c = c)
   \<and> (0 \<le> interpolation_index c \<and> interpolation_index c < int (length interpolation_list) \<longrightarrow>
      cycle_interpolation c
        = c\<lparr>interpolation_index := (interpolation_index c + 1) mod int (length interpolation_list)\<rparr>
    \<and> 0 \<le> interpolation_index (cycle_interpolation c)
    \<and> interpolation_index (cycle_interpolation c) < int (length interpolation_list)
    \<and> (cycle_interpolation ^^ length interpolation_list) c = c)"
proof -
  have l: "length colormap_list = 9" "length interpolation_list = 7"
    by (simp_all add: colormap_list_def interpolation_list_def)
  show ?thesis
    by (simp add: l cycle_colormap_step cycle_interpolation_step
        cycle_colormap_funpow cycle_interpolation_funpow del: funpow.simps)
qed

theorem cycle_advances_modulo_length_witness:
  "colormap_index (cycle_colormap (new_camera 0)) = 1
   \<and> (cycle_colormap ^^ 9) (new_camera 0) = new_camera 0
   \<and> interpolation_index (cycle_interpolation (new_camera 0)) = 4
   \<and> (cycle_interpolation ^^ 7) (new_camera 0) = new_camera 0"
proof -
  have l: "length colormap_list = 9" "length interpolation_list = 7"
    by (simp_all add: colormap_list_def interpolation_list_def)
  have r: "colormap_index (new_camera 0) = 0" "interpolation_index (new_camera 0) = 3"
    by (simp_all add: new_camera_def)
  show ?thesis
    using cycle_advances_modulo_length [of "new_camera 0"]
    by (simp add: l r del: funpow.simps)
qed

subsection \<open>Rounding to float64\<close>

lemma bitlen_rat_bounds:
  assumes "0 < p"
  shows "(2::rat) powi (bitlen p - 1) \<le> of_int p" "of_int p < (2::rat) powi bitlen p"
proof -
  from assms have b: "0 < bitlen p"
    using bitlen_eq_zero_iff[of p] bitlen_nonneg[of p] by linarith
  from bitlen_bounds[OF assms]
  have l: "(2::int) ^ nat (bitlen p - 1) \<le> p" and u: "p < 2 ^ nat (bitlen p)"
    by simp_all
  have "(2::rat) powi (bitlen p - 1) = of_int (2 ^ nat (bitlen p - 1))"
    using b by (simp add: power_int_def)
  also have "\<dots> \<le> of_int p" using l by (simp only: of_int_le_iff)
  finally show "(2::rat) powi (bitlen p - 1) \<le> of_int p" .
  have "(of_int p :: rat) < of_int (2 ^ nat (bitlen p))" using u by (simp only: of_int_less_iff)
  also have "\<dots> = (2::rat) powi bitlen p" using b by (simp add: power_int_def)
  finally show "of_int p < (2::rat) powi bitlen p" .
qed

lemma exponent_bounds:
  assumes "0 < x"
  shows "2 powi exponent x \<le> x" "x < 2 powi (exponent x + 1)"
proof -
  obtain p q where pq: "quotient_of x = (p, q)" by force
  have q: "0 < q" using quotient_of_denom_pos[OF pq] .
  have x: "x = of_int p / of_int q" using quotient_of_div[OF pq] .
  have p: "0 < p" using assms q by (simp add: x zero_less_divide_iff)
  define e where "e = bitlen p - bitlen q"
  note bp = bitlen_rat_bounds[OF p] and bq = bitlen_rat_bounds[OF q]
  have qpos: "(0::rat) < of_int q" using q by simp
  have "x < 2 powi bitlen p / 2 powi (bitlen q - 1)"
    unfolding x using bp(2) bq(1) p by (intro frac_less) simp_all
  also have "\<dots> = 2 powi (e + 1)"
    by (simp add: e_def power_int_diff[symmetric] algebra_simps)
  finally have up: "x < 2 powi (e + 1)" .
  have ex: "exponent x = (if 2 powi e \<le> x then e else e - 1)"
    using assms by (simp add: exponent_def pq e_def Let_def)
  have "2 powi (bitlen p - 1) / 2 powi bitlen q < x"
    unfolding x using bp(1) bq(2) qpos by (intro frac_less2) simp_all
  moreover have "2 powi (bitlen p - 1) / 2 powi bitlen q = (2::rat) powi (e - 1)"
    by (simp add: e_def power_int_diff[symmetric] algebra_simps)
  ultimately have lo: "2 powi (e - 1) < x" by simp
  show "2 powi exponent x \<le> x" using lo by (simp add: ex)
  show "x < 2 powi (exponent x + 1)" using up by (auto simp: ex)
qed

lemma nearest_even_close: "\<bar>of_int (nearest_even y) - y\<bar> \<le> 1 / 2"
proof -
  have "of_int \<lfloor>y\<rfloor> \<le> y" "y < of_int \<lfloor>y\<rfloor> + 1" by linarith+
  then show ?thesis by (auto simp: nearest_even_def Let_def abs_le_iff)
qed

lemma nearest_even_of_int: "nearest_even (of_int n) = n"
  by (simp add: nearest_even_def)

lemma nearest_even_nonneg: "0 \<le> y \<Longrightarrow> 0 \<le> nearest_even y"
  by (simp add: nearest_even_def Let_def)

lemma float64_0: "float64 0 = Fin 0"
  by code_simp

lemma float64_max_bound: "2 ^ 1023 + 2 ^ 1023 / 2 ^ 53 + 1 / 2 ^ 1075 < float64_max"
  by (simp add: float64_max_def)

text \<open>The error of one rounding: a number from 0 to \<open>2 ^ 1023\<close> rounds to a finite float64
  that is not negative and is off by at most the fraction \<open>1 / 2 ^ 53\<close> of the number, or by
  half the step \<open>1 / 2 ^ 1074\<close> of the subnormal range.\<close>

lemma float64_round:
  assumes "0 \<le> x" "x \<le> 2 ^ 1023"
  shows "\<exists>y. float64 x = Fin y \<and> 0 \<le> y \<and> \<bar>y - x\<bar> \<le> x / 2 ^ 53 + 1 / 2 ^ 1075
             \<and> (1 / 2 ^ 1022 \<le> x \<longrightarrow> \<bar>y - x\<bar> \<le> x / 2 ^ 53)"
proof (cases "x = 0")
  case True
  then show ?thesis by (simp add: float64_0)
next
  case False
  with assms have pos: "0 < x" by simp
  define e where "e = max (exponent x) (- 1022)"
  define u :: rat where "u = 2 powi (e - 52)"
  define y where "y = of_int (nearest_even (x / u)) * u"
  have u: "0 < u" by (simp add: u_def)
  have "y - x = (of_int (nearest_even (x / u)) - x / u) * u"
    using u by (simp add: y_def field_simps)
  then have "\<bar>y - x\<bar> = \<bar>of_int (nearest_even (x / u)) - x / u\<bar> * u"
    using u by (simp add: abs_mult)
  also have "\<dots> \<le> 1 / 2 * u"
    using u nearest_even_close[of "x / u"] by (intro mult_right_mono) simp_all
  finally have half: "\<bar>y - x\<bar> \<le> u / 2" by simp
  have y0: "0 \<le> y"
    using u pos nearest_even_nonneg[of "x / u"] by (simp add: y_def)
  have normal: "u / 2 \<le> x / 2 ^ 53" if "- 1022 \<le> exponent x"
  proof -
    from that have "e = exponent x" by (simp add: e_def)
    then have "u / 2 = 2 powi (exponent x - 53)"
      by (simp add: u_def power_int_diff)
    also have "\<dots> = 2 powi exponent x / 2 ^ 53"
      by (simp add: power_int_diff)
    also have "\<dots> \<le> x / 2 ^ 53"
      using exponent_bounds(1)[OF pos] by (simp add: divide_right_mono)
    finally show ?thesis .
  qed
  have sub: "u / 2 = 1 / 2 ^ 1075" if "\<not> - 1022 \<le> exponent x"
  proof -
    from that have "e = - 1022" by (simp add: e_def)
    then show ?thesis by (simp add: u_def power_int_minus_divide)
  qed
  have big: "- 1022 \<le> exponent x" if "1 / 2 ^ 1022 \<le> x"
  proof (rule ccontr)
    assume "\<not> - 1022 \<le> exponent x"
    then have "exponent x + 1 \<le> - 1022" by simp
    then have "(2::rat) powi (exponent x + 1) \<le> 2 powi (- 1022)"
      by (intro power_int_increasing) simp_all
    with exponent_bounds(2)[OF pos] have "x < 2 powi (- 1022)" by simp
    with that show False by (simp add: power_int_minus_divide)
  qed
  have err: "\<bar>y - x\<bar> \<le> x / 2 ^ 53 + 1 / 2 ^ 1075"
    using half normal sub pos by (cases "- 1022 \<le> exponent x") auto
  have err': "\<bar>y - x\<bar> \<le> x / 2 ^ 53" if "1 / 2 ^ 1022 \<le> x"
    using half normal[OF big[OF that]] by simp
  have "y \<le> x + x / 2 ^ 53 + 1 / 2 ^ 1075" using err by (simp add: abs_le_iff)
  also have "\<dots> \<le> 2 ^ 1023 + 2 ^ 1023 / 2 ^ 53 + 1 / 2 ^ 1075"
    using assms(2) by (intro add_mono divide_right_mono) simp_all
  also note float64_max_bound
  finally have "y < float64_max" .
  moreover have "- float64_max < y" using y0 float64_max_bound by (simp add: float64_max_def)
  ultimately have "float64 x = Fin y"
    by (simp add: float64_def Let_def e_def[symmetric] u_def[symmetric] y_def[symmetric])
  with y0 err err' show ?thesis by blast
qed

text \<open>The natural numbers below \<open>2 ^ 53\<close> are float64 values: rounding leaves them as they
  are.\<close>

lemma float64_of_nat:
  assumes "n < 2 ^ 53"
  shows "float64 (of_nat n) = Fin (of_nat n)"
proof (cases "n = 0")
  case True
  then show ?thesis by (simp add: float64_0)
next
  case False
  define x :: rat where "x = of_nat n"
  from False have pos: "0 < x" and one: "1 \<le> x" by (simp_all add: x_def)
  from assms have lt: "x < 2 ^ 53" unfolding x_def
    by (metis of_nat_less_iff of_nat_numeral of_nat_power)
  have e1: "exponent x < 53"
  proof (rule ccontr)
    assume "\<not> exponent x < 53"
    then have "(2::rat) powi 53 \<le> 2 powi exponent x"
      by (intro power_int_increasing) simp_all
    with exponent_bounds(1)[OF pos] lt show False by simp
  qed
  have e0: "0 \<le> exponent x"
  proof (rule ccontr)
    assume "\<not> 0 \<le> exponent x"
    then have "(2::rat) powi (exponent x + 1) \<le> 2 powi 0"
      by (intro power_int_increasing) simp_all
    with exponent_bounds(2)[OF pos] one show False by simp
  qed
  define k where "k = nat (52 - exponent x)"
  define u :: rat where "u = 2 powi (exponent x - 52)"
  have u: "u = 1 / 2 ^ k"
    using e1 by (simp add: u_def k_def power_int_def inverse_eq_divide power_one_over)
  have "x / u = of_int (int n * 2 ^ k)" by (simp add: u x_def)
  then have "nearest_even (x / u) = int n * 2 ^ k" by (simp only: nearest_even_of_int)
  then have y: "of_int (nearest_even (x / u)) * u = x" by (simp add: u x_def)
  have m: "max (exponent x) (- 1022) = exponent x" using e0 by simp
  have "x < float64_max" using lt by (simp add: float64_max_def)
  moreover have "- float64_max < x" using pos by (simp add: float64_max_def)
  ultimately have "float64 x = Fin x"
    by (simp add: float64_def Let_def m u_def[symmetric] y)
  then show ?thesis by (simp add: x_def)
qed

subsection \<open>Rescaling temperatures to pixels\<close>

lemma fold_min_Fin: "fold (\<lambda>v acc. np_minimum acc v) (map Fin r) (Fin x) = Fin (fold min r x)"
  by (induction r arbitrary: x) (auto simp: np_minimum_def min_def)

lemma fold_max_Fin: "fold (\<lambda>v acc. np_maximum acc v) (map Fin r) (Fin x) = Fin (fold max r x)"
  by (induction r arbitrary: x) (auto simp: np_maximum_def max_def)

lemma np_min_Fin:
  assumes "qs \<noteq> []"
  shows "np_min (map Fin qs) = Inr (Fin (Min (set qs)))"
proof -
  from assms obtain x r where qs: "qs = x # r" by (cases qs) auto
  have "Min (set (x # r)) = fold min r x" by (rule Min.set_eq_fold)
  then show ?thesis by (simp add: qs np_min_def fold_min_Fin)
qed

lemma np_max_Fin:
  assumes "qs \<noteq> []"
  shows "np_max (map Fin qs) = Inr (Fin (Max (set qs)))"
proof -
  from assms obtain x r where qs: "qs = x # r" by (cases qs) auto
  have "Max (set (x # r)) = fold max r x" by (rule Max.set_eq_fold)
  then show ?thesis by (simp add: qs np_max_def fold_max_Fin)
qed

text \<open>The three roundings of \<open>(v - Tmin) * 255 / (Tmax - Tmin)\<close>, one after the other, with
  \<open>D\<close> for the exact \<open>Tmax - Tmin\<close>, \<open>s\<close> for the exact \<open>v - Tmin\<close>, \<open>e\<close> for the relative
  error of a rounding and \<open>t\<close> for its absolute error in the subnormal range: \<open>a\<close> and \<open>d\<close>
  are the two differences as computed, \<open>b\<close> the product and \<open>c\<close> the quotient.\<close>

lemma chain_first:
  fixes D s a d e t :: rat
  assumes D: "0 < D" and s: "0 \<le> s" "s \<le> D" and e: "0 \<le> e" "e \<le> 1 / 4096"
    and t: "0 \<le> t" "t \<le> e * D"
    and a: "\<bar>a - s\<bar> \<le> s * e + t" and d: "\<bar>d - D\<bar> \<le> D * e"
  shows "\<bar>a - s\<bar> \<le> 2 * (e * D)" "a \<le> 2 * D" "\<bar>D - d\<bar> \<le> e * D" "D / 2 \<le> d" "0 < d"
proof -
  have se: "s * e \<le> e * D" using mult_right_mono[OF s(2) e(1)] by (simp add: mult.commute)
  show a1: "\<bar>a - s\<bar> \<le> 2 * (e * D)" using a se t by linarith
  have eD1: "e * D \<le> D / 4096" using mult_right_mono[OF e(2), of D] D by simp
  show "a \<le> 2 * D" using a1 s eD1 D by linarith
  show d0: "\<bar>D - d\<bar> \<le> e * D" using d by (simp add: abs_minus_commute mult.commute)
  show d1: "D / 2 \<le> d" using d0 eD1 D by linarith
  show "0 < d" using d1 D by linarith
qed

lemma chain_second:
  fixes D s a b d e t :: rat
  assumes D: "0 < D" and s: "0 \<le> s" "s \<le> D" and e: "0 \<le> e" "e \<le> 1 / 4096"
    and t: "0 \<le> t" "t \<le> e * D"
    and a: "\<bar>a - s\<bar> \<le> s * e + t" and d: "\<bar>d - D\<bar> \<le> D * e"
    and b: "0 \<le> b" "\<bar>b - a * 255\<bar> \<le> a * 255 * e + t"
  shows "\<bar>b / d - s * 255 / D\<bar> \<le> 2552 * e" "0 \<le> b / d" "b / d \<le> 256"
proof -
  note f = chain_first[OF D s e t a d]
  have "a * e \<le> 2 * D * e" using f(2) e(1) by (rule mult_right_mono)
  then have a3: "a * 255 * e \<le> 510 * (e * D)" by (simp add: algebra_simps)
  have b1: "\<bar>b - a * 255\<bar> \<le> 511 * (e * D)" using b(2) a3 t by linarith
  have b2: "\<bar>b - s * 255\<bar> \<le> 1021 * (e * D)" using b1 f(1) by linarith
  define X where "X = s * 255 / D"
  have X: "0 \<le> X" "X \<le> 255" using s D by (simp_all add: X_def divide_le_eq)
  have XD: "X * D = s * 255" using D by (simp add: X_def)
  have "b - X * d = (b - X * D) + X * (D - d)" by (simp add: algebra_simps)
  then have "b - X * d = (b - s * 255) + X * (D - d)" by (simp only: XD)
  then have "\<bar>b - X * d\<bar> \<le> \<bar>b - s * 255\<bar> + \<bar>X * (D - d)\<bar>" by (simp only: abs_triangle_ineq)
  also have "\<bar>X * (D - d)\<bar> = X * \<bar>D - d\<bar>" using X(1) by (simp add: abs_mult)
  also have "X * \<bar>D - d\<bar> \<le> 255 * (e * D)" using X f(3) by (intro mult_mono) simp_all
  finally have n: "\<bar>b - X * d\<bar> \<le> 1276 * (e * D)" using b2 by linarith
  have "b / d - X = (b - X * d) / d" using f(5) by (simp add: field_simps)
  then have "\<bar>b / d - X\<bar> = \<bar>b - X * d\<bar> / d" using f(5) by (simp add: abs_divide)
  also have "\<dots> \<le> 1276 * (e * D) / d" using n f(5) by (simp add: divide_right_mono)
  also have "\<dots> \<le> 1276 * (e * D) / (D / 2)" using f(4) D e by (intro divide_left_mono) simp_all
  also have "\<dots> = 2552 * e" using D by simp
  finally have q1: "\<bar>b / d - X\<bar> \<le> 2552 * e" .
  then show "\<bar>b / d - s * 255 / D\<bar> \<le> 2552 * e" by (simp only: X_def)
  show "b / d \<le> 256" using q1 X e by linarith
  show "0 \<le> b / d" using b(1) f(5) by simp
qed

lemma chain_third:
  fixes D s b c d e t :: rat
  assumes e: "0 \<le> e" "e \<le> 1 / 4096" and t: "t \<le> e"
    and q: "\<bar>b / d - s * 255 / D\<bar> \<le> 2552 * e" "b / d \<le> 256"
    and c: "\<bar>c - b / d\<bar> \<le> b / d * e + t"
  shows "\<bar>c - s * 255 / D\<bar> \<le> 4096 * e"
proof -
  have "b / d * e \<le> 256 * e" using q(2) e(1) by (rule mult_right_mono)
  then have "\<bar>c - b / d\<bar> \<le> 257 * e" using c t by linarith
  then show ?thesis using q(1) e by linarith
qed

lemma subnormal_half_step: "(1::rat) / 2 ^ 1075 = 1 / 2 ^ 53 * (1 / 2 ^ 1022)"
  by simp

text \<open>The value computed for a sample between the extremes, when the difference of the
  extremes neither underflows nor overflows: a finite float64 from 0 up to, not including,
  256, within \<open>1 / 2 ^ 41\<close> of the exact quotient.\<close>

lemma rescaled_close:
  assumes "lo \<le> q" "q \<le> hi" "1 / 2 ^ 1022 \<le> hi - lo" "hi - lo \<le> 2 ^ 1000"
  shows "\<exists>r. rescaled (Fin lo) (Fin hi) (Fin q) = Fin r \<and> 0 \<le> r \<and> r < 256
             \<and> \<bar>r - (q - lo) * 255 / (hi - lo)\<bar> \<le> 1 / 2 ^ 41"
proof -
  define D where "D = hi - lo"
  define s where "s = q - lo"
  define e :: rat where "e = 1 / 2 ^ 53"
  define t :: rat where "t = 1 / 2 ^ 1075"
  have D: "0 < D" "1 / 2 ^ 1022 \<le> D" "D \<le> 2 ^ 1000"
    using assms(3,4) by (simp_all add: D_def)
  have s: "0 \<le> s" "s \<le> D" using assms(1,2) by (simp_all add: s_def D_def)
  have e: "0 \<le> e" "e \<le> 1 / 4096" by (simp_all add: e_def)
  have "t = e * (1 / 2 ^ 1022)" unfolding t_def e_def by (rule subnormal_half_step)
  also have "\<dots> \<le> e * D" using D(2) e(1) by (rule mult_left_mono)
  finally have t: "0 \<le> t" "t \<le> e * D" "t \<le> e" by (simp_all add: t_def e_def)
  have "s \<le> 2 ^ 1023" using s(2) D(3) by simp
  with float64_round[OF s(1)] obtain a where
    a: "float64 s = Fin a" "0 \<le> a" "\<bar>a - s\<bar> \<le> s * e + t"
    by (auto simp: e_def t_def)
  have "D \<le> 2 ^ 1023" using D(3) by simp
  with float64_round[of D] D(1,2) obtain d where
    d: "float64 D = Fin d" "\<bar>d - D\<bar> \<le> D * e"
    by (auto simp: e_def)
  note f = chain_first[OF D(1) s e t(1,2) a(3) d(2)]
  have "a * 255 \<le> 2 ^ 1023" using f(2) D(3) by simp
  with float64_round[of "a * 255"] a(2) obtain b where
    b: "float64 (a * 255) = Fin b" "0 \<le> b" "\<bar>b - a * 255\<bar> \<le> a * 255 * e + t"
    by (auto simp: e_def t_def)
  note g = chain_second[OF D(1) s e t(1,2) a(3) d(2) b(2,3)]
  have "b / d \<le> 2 ^ 1023" using g(3) by simp
  with float64_round[OF g(2)] obtain c where
    c: "float64 (b / d) = Fin c" "0 \<le> c" "\<bar>c - b / d\<bar> \<le> b / d * e + t"
    by (auto simp: e_def t_def)
  have close: "\<bar>c - s * 255 / D\<bar> \<le> 4096 * e"
    by (rule chain_third[OF e t(3) g(1,3) c(3)])
  have X: "s * 255 / D \<le> 255" using s D(1) by (simp add: divide_le_eq)
  have r: "rescaled (Fin lo) (Fin hi) (Fin q) = Fin c"
    using f(5) by (simp add: rescaled_def s_def[symmetric] D_def[symmetric] a(1) d(1) b(1) c(1))
  have "e \<le> 1 / 8192" by (simp add: e_def)
  then have "c < 256" using close X by linarith
  moreover have "\<bar>c - (q - lo) * 255 / (hi - lo)\<bar> \<le> 1 / 2 ^ 41"
    using close by (simp add: s_def D_def e_def)
  ultimately show ?thesis using r c(2) by blast
qed

lemma np_uint8_in_range:
  assumes "0 \<le> q" "q < 256"
  shows "np_uint8 ub (Fin q) = word_of_int \<lfloor>q\<rfloor>"
  using assms by (simp add: trunc_def)

lemma rescale_finite:
  assumes len: "length qs = 768"
    and lo: "np_min (map Fin qs) = Inr (Fin lo)"
    and hi: "np_max (map Fin qs) = Inr (Fin hi)"
    and D: "1 / 2 ^ 1022 \<le> hi - lo" "hi - lo \<le> 2 ^ 1000"
  shows "temps_to_rescaled_uints ub (map Fin qs) (Fin lo) (Fin hi)
           = Inr (map (\<lambda>q. np_uint8 ub (rescaled (Fin lo) (Fin hi) (Fin q))) qs)"
    and "\<forall>q\<in>set qs. \<exists>r. rescaled (Fin lo) (Fin hi) (Fin q) = Fin r
           \<and> \<bar>r - (q - lo) * 255 / (hi - lo)\<bar> \<le> 1 / 2 ^ 41
           \<and> np_uint8 ub (Fin r) = word_of_int \<lfloor>r\<rfloor> \<and> 0 \<le> \<lfloor>r\<rfloor> \<and> \<lfloor>r\<rfloor> \<le> 255"
    and "lo \<in> set qs" and "hi \<in> set qs"
    and "np_uint8 ub (rescaled (Fin lo) (Fin hi) (Fin lo)) = 0"
    and "np_uint8 ub (rescaled (Fin lo) (Fin hi) (Fin hi)) \<in> {254, 255}"
proof -
  from len have ne: "qs \<noteq> []" by auto
  from lo hi have lo_eq: "lo = Min (set qs)" and hi_eq: "hi = Max (set qs)"
    by (simp_all add: np_min_Fin[OF ne] np_max_Fin[OF ne])
  show lo_in: "lo \<in> set qs" and hi_in: "hi \<in> set qs"
    using ne by (simp_all add: lo_eq hi_eq)
  have bounds: "lo \<le> q \<and> q \<le> hi" if "q \<in> set qs" for q
    using that by (simp add: lo_eq hi_eq)
  have pixel: "\<exists>r. rescaled (Fin lo) (Fin hi) (Fin q) = Fin r
           \<and> \<bar>r - (q - lo) * 255 / (hi - lo)\<bar> \<le> 1 / 2 ^ 41
           \<and> np_uint8 ub (Fin r) = word_of_int \<lfloor>r\<rfloor> \<and> 0 \<le> \<lfloor>r\<rfloor> \<and> \<lfloor>r\<rfloor> \<le> 255"
    if q: "q \<in> set qs" for q
  proof -
    from bounds[OF q] rescaled_close[of lo q hi] D obtain r where
      r: "rescaled (Fin lo) (Fin hi) (Fin q) = Fin r" "0 \<le> r" "r < 256"
        "\<bar>r - (q - lo) * 255 / (hi - lo)\<bar> \<le> 1 / 2 ^ 41"
      by blast
    from r(2) have "0 \<le> \<lfloor>r\<rfloor>" by simp
    moreover from r(3) have "\<lfloor>r\<rfloor> \<le> 255" by (simp add: floor_le_iff)
    ultimately show ?thesis using r np_uint8_in_range[OF r(2,3)] by blast
  qed
  then show "\<forall>q\<in>set qs. \<exists>r. rescaled (Fin lo) (Fin hi) (Fin q) = Fin r
           \<and> \<bar>r - (q - lo) * 255 / (hi - lo)\<bar> \<le> 1 / 2 ^ 41
           \<and> np_uint8 ub (Fin r) = word_of_int \<lfloor>r\<rfloor> \<and> 0 \<le> \<lfloor>r\<rfloor> \<and> \<lfloor>r\<rfloor> \<le> 255"
    by blast
  have "map (\<lambda>v. np_uint8 ub (rescaled (Fin lo) (Fin hi) v)) (map nan_to_num (map Fin qs))
          = map (\<lambda>q. np_uint8 ub (rescaled (Fin lo) (Fin hi) (Fin q))) qs"
    by (simp add: comp_def)
  then show "temps_to_rescaled_uints ub (map Fin qs) (Fin lo) (Fin hi)
           = Inr (map (\<lambda>q. np_uint8 ub (rescaled (Fin lo) (Fin hi) (Fin q))) qs)"
    by (simp add: temps_to_rescaled_uints_def Let_def len)
  from pixel[OF lo_in] obtain r where
    r: "rescaled (Fin lo) (Fin hi) (Fin lo) = Fin r" "\<bar>r - (lo - lo) * 255 / (hi - lo)\<bar> \<le> 1 / 2 ^ 41"
      "np_uint8 ub (Fin r) = word_of_int \<lfloor>r\<rfloor>" "0 \<le> \<lfloor>r\<rfloor>"
    by blast
  have small: "(1::rat) / 2 ^ 41 < 1" by simp
  from r(2) have "\<bar>r\<bar> \<le> 1 / 2 ^ 41" by simp
  with small have "r < 1" by linarith
  then have "\<lfloor>r\<rfloor> < 1" by (simp add: floor_less_iff)
  with r(4) have "\<lfloor>r\<rfloor> = 0" by linarith
  then show "np_uint8 ub (rescaled (Fin lo) (Fin hi) (Fin lo)) = 0"
    by (simp only: r(1) r(3)) simp
  from pixel[OF hi_in] obtain r' where
    r': "rescaled (Fin lo) (Fin hi) (Fin hi) = Fin r'"
      "\<bar>r' - (hi - lo) * 255 / (hi - lo)\<bar> \<le> 1 / 2 ^ 41"
      "np_uint8 ub (Fin r') = word_of_int \<lfloor>r'\<rfloor>" "\<lfloor>r'\<rfloor> \<le> 255"
    by blast
  from D(1) have "hi - lo \<noteq> 0" by auto
  then have "(hi - lo) * 255 / (hi - lo) = 255" by (rule nonzero_mult_div_cancel_left)
  with r'(2) have "\<bar>r' - 255\<bar> \<le> 1 / 2 ^ 41" by simp
  with small have "254 \<le> r'" by linarith
  then have "254 \<le> \<lfloor>r'\<rfloor>" by (simp add: le_floor_iff)
  with r'(4) have "\<lfloor>r'\<rfloor> = 254 \<or> \<lfloor>r'\<rfloor> = 255" by linarith
  then have "word_of_int \<lfloor>r'\<rfloor> \<in> {254, 255 :: u8}" by auto
  then show "np_uint8 ub (rescaled (Fin lo) (Fin hi) (Fin hi)) \<in> {254, 255}"
    by (simp only: r'(1) r'(3))
qed

subsection \<open>The frame 0.0, 1.0, ..., 767.0\<close>

lemma ramp_frame_Fin: "ramp_frame = map Fin (map rat_of_nat [0..<768])"
  by (simp add: ramp_frame_def)

lemma np_min_ramp: "np_min ramp_frame = Inr (Fin 0)"
proof -
  have "Min (set (map rat_of_nat [0..<768])) = 0"
    by (rule Min_eqI) auto
  then show ?thesis
    using np_min_Fin[of "map rat_of_nat [0..<768]"]
    by (simp add: ramp_frame_Fin del: set_map map_map)
qed

lemma np_max_ramp: "np_max ramp_frame = Inr (Fin 767)"
proof -
  have "rat_of_nat 767 \<in> set (map rat_of_nat [0..<768])" by simp
  moreover have "\<And>y. y \<in> set (map rat_of_nat [0..<768]) \<Longrightarrow> y \<le> 767" by auto
  ultimately have "Max (set (map rat_of_nat [0..<768])) = 767"
    by (intro Max_eqI) auto
  then show ?thesis
    using np_max_Fin[of "map rat_of_nat [0..<768]"]
    by (simp add: ramp_frame_Fin del: set_map map_map)
qed

text \<open>In this frame the two differences and the product are natural numbers, which no
  rounding changes, and the only rounding is that of the quotient \<open>i * 255 / 767\<close>. Either
  767 divides \<open>i * 255\<close> and the quotient is a natural number again, or the quotient is at
  least \<open>1 / 767\<close> away from the integers around it, much more than the rounding moves it.\<close>

lemma ramp_quotient_error: "(255::rat) / 2 ^ 53 + 1 / 2 ^ 1075 < 1 / 767"
  by simp

lemma rescaled_ramp:
  assumes "i < 768"
  shows "\<exists>r. rescaled (Fin 0) (Fin 767) (Fin (of_nat i)) = Fin r \<and> 0 \<le> r \<and> r < 256
             \<and> \<lfloor>r\<rfloor> = int (i * 255 div 767)"
proof -
  define n where "n = i * 255"
  define k where "k = n div 767"
  define m where "m = n mod 767"
  have n: "n = 767 * k + m" by (simp add: k_def m_def)
  have m: "m < 767" by (simp add: m_def)
  from assms have nb: "n \<le> 767 * 255" by (simp add: n_def)
  then have "n div 767 \<le> 767 * 255 div 767" by (rule div_le_mono)
  then have kb: "k \<le> 255" by (simp add: k_def)
  have i53: "i < 2 ^ 53" using assms by simp
  have n53: "n < 2 ^ 53" using nb by simp
  have k53: "k < 2 ^ 53" using kb by simp
  have "float64 (rat_of_nat i - 0) = Fin (of_nat i)"
    using float64_of_nat[OF i53] by simp
  moreover have "float64 (rat_of_nat i * 255) = Fin (of_nat n)"
    using float64_of_nat[OF n53] by (simp add: n_def)
  moreover have "float64 (767 - 0) = Fin 767"
    using float64_of_nat[of 767] by simp
  ultimately have st: "rescaled (Fin 0) (Fin 767) (Fin (of_nat i)) = float64 (of_nat n / 767)"
    by (simp add: rescaled_def)
  define x :: rat where "x = of_nat n / 767"
  have x: "x = of_nat k + of_nat m / 767" by (simp add: x_def n add_divide_distrib)
  show ?thesis
  proof (cases "m = 0")
    case True
    then have "x = of_nat k" by (simp add: x)
    then have "float64 x = Fin (of_nat k)" using float64_of_nat[OF k53] by simp
    then have "rescaled (Fin 0) (Fin 767) (Fin (of_nat i)) = Fin (of_nat k)"
      by (simp only: st x_def)
    moreover have "0 \<le> rat_of_nat k" "rat_of_nat k < 256"
      "\<lfloor>rat_of_nat k\<rfloor> = int (i * 255 div 767)"
      using kb by (simp_all add: k_def n_def)
    ultimately show ?thesis by blast
  next
    case False
    then have m1: "1 \<le> rat_of_nat m" by simp
    have m2: "rat_of_nat m \<le> 766" using m by simp
    have x0: "0 \<le> x" by (simp add: x_def)
    have x1: "x \<le> 255" using nb by (simp add: x_def divide_le_eq)
    then have "x \<le> 2 ^ 1023" by simp
    with float64_round[OF x0] obtain r where
      r: "float64 x = Fin r" "\<bar>r - x\<bar> \<le> x / 2 ^ 53 + 1 / 2 ^ 1075"
      by blast
    have "x / 2 ^ 53 \<le> 255 / 2 ^ 53" using x1 by (simp add: divide_right_mono)
    with r(2) ramp_quotient_error have err: "\<bar>r - x\<bar> < 1 / 767" by linarith
    have "1 / 767 \<le> rat_of_nat m / 767" "rat_of_nat m / 767 \<le> 766 / 767"
      using m1 m2 by (simp_all add: divide_right_mono)
    with err x have b: "of_nat k < r" "r < of_nat k + 1" by linarith+
    then have "\<lfloor>r\<rfloor> = int k" by (simp add: floor_eq_iff)
    then have "\<lfloor>r\<rfloor> = int (i * 255 div 767)" by (simp add: k_def n_def)
    moreover have "0 \<le> r" using b(1) by (meson less_imp_le of_nat_0_le_iff order_trans)
    moreover have "rat_of_nat k + 1 \<le> 256" using kb by simp
    then have "r < 256" using b(2) by linarith
    moreover have "rescaled (Fin 0) (Fin 767) (Fin (of_nat i)) = Fin r"
      using r(1) by (simp only: st x_def)
    ultimately show ?thesis by blast
  qed
qed

lemma rescale_ramp:
  "temps_to_rescaled_uints ub ramp_frame (Fin 0) (Fin 767)
     = Inr (map (\<lambda>i. word_of_nat (i * 255 div 767)) [0..<768])"
proof -
  have "np_uint8 ub (rescaled (Fin 0) (Fin 767) (Fin (of_nat i))) = word_of_nat (i * 255 div 767)"
    if "i < 768" for i
  proof -
    from rescaled_ramp[OF that] obtain r where
      r: "rescaled (Fin 0) (Fin 767) (Fin (of_nat i)) = Fin r" "0 \<le> r" "r < 256"
        "\<lfloor>r\<rfloor> = int (i * 255 div 767)"
      by blast
    show ?thesis by (simp only: r(1) np_uint8_in_range[OF r(2,3)] r(4) of_int_of_nat_eq)
  qed
  then have "map (\<lambda>v. np_uint8 ub (rescaled (Fin 0) (Fin 767) v)) (map nan_to_num ramp_frame)
          = map (\<lambda>i. word_of_nat (i * 255 div 767)) [0..<768]"
    by (simp add: ramp_frame_def comp_def)
  then show ?thesis
    by (simp add: temps_to_rescaled_uints_def Let_def ramp_frame_def)
qed

subsection \<open>The frame 20.0, 21.1, ..., 21.1\<close>

lemma nearest_float64_to_21_1: "float64 (211 / 10) = Fin float64_21_1"
  by code_simp

lemma two_level_frame_Fin: "two_level_frame = map Fin (20 # replicate 767 float64_21_1)"
  by (simp add: two_level_frame_def)

lemma two_level_extremes:
  "np_min two_level_frame = Inr (Fin 20)" "np_max two_level_frame = Inr (Fin float64_21_1)"
proof -
  have lt: "20 < float64_21_1" by (simp add: float64_21_1_def)
  have "set (20 # replicate 767 float64_21_1) = {20, float64_21_1}" by simp
  then have "Min (set (20 # replicate 767 float64_21_1)) = 20"
    "Max (set (20 # replicate 767 float64_21_1)) = float64_21_1"
    using lt by (simp_all only: Min_insert Max_insert finite.intros Min_singleton Max_singleton)
                (simp_all add: min_def max_def)
  then show "np_min two_level_frame = Inr (Fin 20)"
    "np_max two_level_frame = Inr (Fin float64_21_1)"
    using np_min_Fin[of "20 # replicate 767 float64_21_1"]
      np_max_Fin[of "20 # replicate 767 float64_21_1"]
    by (simp_all only: two_level_frame_Fin) simp_all
qed

lemma two_level_values:
  "rescaled (Fin 20) (Fin float64_21_1) (Fin 20) = Fin 0"
  "rescaled (Fin 20) (Fin float64_21_1) (Fin float64_21_1) = Fin (8972014882652159 / 2 ^ 45)"
  by code_simp+

lemma two_level_pixels:
  "np_uint8 ub (rescaled (Fin 20) (Fin float64_21_1) (Fin 20)) = 0"
  "np_uint8 ub (rescaled (Fin 20) (Fin float64_21_1) (Fin float64_21_1)) = 254"
proof -
  show "np_uint8 ub (rescaled (Fin 20) (Fin float64_21_1) (Fin 20)) = 0"
    by (simp add: two_level_values trunc_def)
  have f: "\<lfloor>(8972014882652159::rat) / 2 ^ 45\<rfloor> = 254"
    by (simp add: floor_eq_iff)
  have "np_uint8 ub (Fin (8972014882652159 / 2 ^ 45))
          = word_of_int \<lfloor>(8972014882652159::rat) / 2 ^ 45\<rfloor>"
    by (rule np_uint8_in_range) simp_all
  then show "np_uint8 ub (rescaled (Fin 20) (Fin float64_21_1) (Fin float64_21_1)) = 254"
    by (simp only: two_level_values f) simp
qed

lemma rescale_two_level:
  "temps_to_rescaled_uints ub two_level_frame (Fin 20) (Fin float64_21_1)
     = Inr (0 # replicate 767 254)"
  by (simp add: temps_to_rescaled_uints_def Let_def two_level_frame_def two_level_pixels)

text \<open>
  Claim C1, amended. The cast to 8 bits drops the fraction instead of rounding, and what it
  is applied to is the float64 result of \<open>(v - Tmin) * 255 / (Tmax - Tmin)\<close>, each operation
  rounded. For a frame of 768 finite samples whose maximum \<open>hi\<close> is above its minimum \<open>lo\<close>
  by at least \<open>1 / 2 ^ 1022\<close> and at most \<open>2 ^ 1000\<close> (so that their difference neither
  underflows nor overflows), the value computed for a sample \<open>q\<close> is a finite float64 \<open>r\<close>
  within \<open>1 / 2 ^ 41\<close> of the exact \<open>(q - lo) * 255 / (hi - lo)\<close>, and the pixel is its
  integer part \<open>\<lfloor>r\<rfloor>\<close>, which lies between 0 and 255 (so the cast neither wraps nor leaves
  the range where it is defined). The minimum and the maximum are samples of the frame; the
  minimum maps to 0, and the maximum to 254 or 255: to 254 in the frame 20.0, 21.1, ...,
  21.1, where the float64 quotient falls just below 255. In the frame 0.0, 1.0, ..., 767.0
  the pixel at index \<open>i\<close> is \<open>i * 255 div 767\<close>.
\<close>

theorem rescale_truncates:
  "(length qs = 768 \<and> np_min (map Fin qs) = Inr (Fin lo) \<and> np_max (map Fin qs) = Inr (Fin hi)
      \<and> 1 / 2 ^ 1022 \<le> hi - lo \<and> hi - lo \<le> 2 ^ 1000 \<longrightarrow>
      temps_to_rescaled_uints ub (map Fin qs) (Fin lo) (Fin hi)
        = Inr (map (\<lambda>q. np_uint8 ub (rescaled (Fin lo) (Fin hi) (Fin q))) qs)
      \<and> (\<forall>q\<in>set qs. \<exists>r. rescaled (Fin lo) (Fin hi) (Fin q) = Fin r
            \<and> \<bar>r - (q - lo) * 255 / (hi - lo)\<bar> \<le> 1 / 2 ^ 41
            \<and> np_uint8 ub (Fin r) = word_of_int \<lfloor>r\<rfloor> \<and> 0 \<le> \<lfloor>r\<rfloor> \<and> \<lfloor>r\<rfloor> \<le> 255)
      \<and> lo \<in> set qs \<and> np_uint8 ub (rescaled (Fin lo) (Fin hi) (Fin lo)) = 0
      \<and> hi \<in> set qs \<and> np_uint8 ub (rescaled (Fin lo) (Fin hi) (Fin hi)) \<in> {254, 255})
   \<and> np_min two_level_frame = Inr (Fin 20) \<and> np_max two_level_frame = Inr (Fin float64_21_1)
   \<and> temps_to_rescaled_uints ub two_level_frame (Fin 20) (Fin float64_21_1)
       = Inr (0 # replicate 767 254)
   \<and> np_min ramp_frame = Inr (Fin 0) \<and> np_max ramp_frame = Inr (Fin 767)
   \<and> temps_to_rescaled_uints ub ramp_frame (Fin 0) (Fin 767)
       = Inr (map (\<lambda>i. word_of_nat (i * 255 div 767)) [0..<768])"
  using rescale_finite(1,2,5,6)[of qs lo hi ub] rescale_finite(3,4)[of qs lo hi]
  by (simp only: two_level_extremes rescale_two_level np_min_ramp np_max_ramp rescale_ramp) blast

text \<open>
  At the frame 20.0, 21.1, ..., 21.1, whose extremes are 1.1 apart.
\<close>

theorem rescale_truncates_witness:
  "temps_to_rescaled_uints ub_zero (map Fin (20 # replicate 767 float64_21_1)) (Fin 20)
       (Fin float64_21_1)
     = Inr (map (\<lambda>q. np_uint8 ub_zero (rescaled (Fin 20) (Fin float64_21_1) (Fin q)))
              (20 # replicate 767 float64_21_1))
   \<and> (\<exists>r. rescaled (Fin 20) (Fin float64_21_1) (Fin float64_21_1) = Fin r
            \<and> \<bar>r - (float64_21_1 - 20) * 255 / (float64_21_1 - 20)\<bar> \<le> 1 / 2 ^ 41
            \<and> np_uint8 ub_zero (Fin r) = word_of_int \<lfloor>r\<rfloor> \<and> 0 \<le> \<lfloor>r\<rfloor> \<and> \<lfloor>r\<rfloor> \<le> 255)
   \<and> np_uint8 ub_zero (rescaled (Fin 20) (Fin float64_21_1) (Fin 20)) = 0
   \<and> np_uint8 ub_zero (rescaled (Fin 20) (Fin float64_21_1) (Fin float64_21_1)) \<in> {254, 255}"
proof -
  have h: "length (20 # replicate 767 float64_21_1) = 768"
    "np_min (map Fin (20 # replicate 767 float64_21_1)) = Inr (Fin 20)"
    "np_max (map Fin (20 # replicate 767 float64_21_1)) = Inr (Fin float64_21_1)"
    using two_level_extremes by (simp_all only: two_level_frame_Fin) simp
  have d: "1 / 2 ^ 1022 \<le> float64_21_1 - 20" "float64_21_1 - 20 \<le> 2 ^ 1000"
    by (simp_all add: float64_21_1_def)
  have m: "float64_21_1 \<in> set (20 # replicate 767 float64_21_1)" by simp
  from rescale_truncates[of "20 # replicate 767 float64_21_1" 20 float64_21_1 ub_zero] h d m
  show ?thesis by blast
qed

text \<open>
  The claim as written fails at index 2 of the frame 0.0, 1.0, ..., 767.0: the pixel is 0,
  and \<open>2 * 255 / 767\<close> rounds to 1.
\<close>

theorem ramp_pixel_truncated_not_rounded:
  "np_min ramp_frame = Inr (Fin 0) \<and> np_max ramp_frame = Inr (Fin 767)
   \<and> \<not> isl (temps_to_rescaled_uints ub_zero ramp_frame (Fin 0) (Fin 767))
   \<and> uint (projr (temps_to_rescaled_uints ub_zero ramp_frame (Fin 0) (Fin 767)) ! 2) = 0
   \<and> round ((2::rat) * 255 / 767) = 1
   \<and> uint (projr (temps_to_rescaled_uints ub_zero ramp_frame (Fin 0) (Fin 767)) ! 2)
       \<noteq> round ((2::rat) * 255 / 767)"
proof -
  have r: "round ((2::rat) * 255 / 767) = 1" by code_simp
  have p: "uint (map (\<lambda>i. word_of_nat (i * 255 div 767) :: u8) [0..<768] ! 2) = 0"
    by simp
  show ?thesis by (simp only: np_min_ramp np_max_ramp rescale_ramp r p) simp
qed

subsection \<open>Frames with NaN\<close>

lemma fold_min_from_NaN: "fold (\<lambda>v acc. np_minimum acc v) r NaN = NaN"
  by (induction r) (simp_all add: np_minimum_def)

lemma fold_max_from_NaN: "fold (\<lambda>v acc. np_maximum acc v) r NaN = NaN"
  by (induction r) (simp_all add: np_maximum_def)

lemma np_minimum_NaN_right: "np_minimum a NaN = NaN"
  by (cases a) (simp_all add: np_minimum_def)

lemma np_maximum_NaN_right: "np_maximum a NaN = NaN"
  by (cases a) (simp_all add: np_maximum_def)

lemma fold_min_NaN: "NaN \<in> set r \<Longrightarrow> fold (\<lambda>v acc. np_minimum acc v) r x = NaN"
  by (induction r arbitrary: x) (auto simp: np_minimum_NaN_right fold_min_from_NaN)

lemma fold_max_NaN: "NaN \<in> set r \<Longrightarrow> fold (\<lambda>v acc. np_maximum acc v) r x = NaN"
  by (induction r arbitrary: x) (auto simp: np_maximum_NaN_right fold_max_from_NaN)

lemma np_min_NaN: "NaN \<in> set f \<Longrightarrow> np_min f = Inr NaN"
  by (cases f) (auto simp: np_min_def fold_min_from_NaN fold_min_NaN)

lemma np_max_NaN: "NaN \<in> set f \<Longrightarrow> np_max f = Inr NaN"
  by (cases f) (auto simp: np_max_def fold_max_from_NaN fold_max_NaN)

lemma rescaled_NaN: "rescaled NaN NaN v = NaN"
  by (cases v) (simp_all add: rescaled_def)

lemma temps_to_rescaled_uints_NaN:
  "length f = 768 \<Longrightarrow> temps_to_rescaled_uints ub f NaN NaN = Inr (replicate 768 (ub NaN))"
  by (simp add: temps_to_rescaled_uints_def Let_def rescaled_NaN comp_def map_replicate_const)

text \<open>
  Claim C2: the code does not do what the claim says. \<open>__pull_raw_image\<close> takes \<open>np.min\<close>
  and \<open>np.max\<close> of the buffer as the driver left it, and \<open>np.nan_to_num\<close> runs afterwards,
  inside \<open>__temps_to_rescaled_uints\<close>. When a frame of 768 samples holds a NaN, both recorded
  extremes are NaN, every rescaled value is NaN whatever \<open>nan_to_num\<close> made of the sample,
  and every pixel is the cast of NaN.
\<close>

theorem min_max_taken_before_nan_to_num:
  "getFrame ev (blank_image c) = (f, None) \<and> length f = 768 \<and> NaN \<in> set f \<longrightarrow>
   pull_raw_image ub ev c
     = (c\<lparr>blank_image := f, temp_min := Some NaN, temp_max := Some NaN,
          current_frame_processed := Some False\<rparr>,
        Inr (Norm (replicate 768 (ub NaN))))"
  by (simp add: pull_raw_image_def np_min_NaN np_max_NaN temps_to_rescaled_uints_NaN)

lemma nan_frame_facts: "length nan_frame = 768" "NaN \<in> set nan_frame"
  by (simp_all add: nan_frame_def)

lemma nan_frame_as_zero:
  "map nan_to_num nan_frame = map Fin (0 # replicate 767 20)"
  by (simp add: nan_frame_def)

text \<open>
  At the frame NaN, 20.0, ..., 20.0: the extremes recorded are NaN, where the frame with
  its NaN replaced by 0 has the minimum 0 and the maximum 20.
\<close>

theorem min_max_taken_before_nan_to_num_witness:
  "temp_min (fst (pull_raw_image ub_zero (sensor_reads nan_frame 1) (new_camera 0))) = Some NaN
   \<and> temp_max (fst (pull_raw_image ub_zero (sensor_reads nan_frame 1) (new_camera 0))) = Some NaN
   \<and> snd (pull_raw_image ub_zero (sensor_reads nan_frame 1) (new_camera 0))
       = Inr (Norm (replicate 768 0))
   \<and> np_min (map nan_to_num nan_frame) = Inr (Fin 0)
   \<and> np_max (map nan_to_num nan_frame) = Inr (Fin 20)"
proof -
  have g: "getFrame (sensor_reads nan_frame 1) (blank_image (new_camera 0)) = (nan_frame, None)"
    by (simp add: sensor_reads_def)
  have lo: "np_min (map nan_to_num nan_frame) = Inr (Fin 0)"
    using np_min_Fin[of "0 # replicate 767 20"] by (simp add: nan_frame_as_zero)
  have hi: "np_max (map nan_to_num nan_frame) = Inr (Fin 20)"
    using np_max_Fin[of "0 # replicate 767 20"] by (simp add: nan_frame_as_zero)
  from min_max_taken_before_nan_to_num[of "sensor_reads nan_frame 1" "new_camera 0" nan_frame ub_zero]
    g nan_frame_facts
  show ?thesis by (simp add: lo hi ub_zero_def)
qed

subsection \<open>Frames whose maximum equals their minimum\<close>

lemma all_equal_of_Min_eq_Max:
  assumes "finite A" "A \<noteq> {}" "Min A = m" "Max A = m" "q \<in> A"
  shows "q = (m::rat)"
proof -
  from assms have "m \<le> q" "q \<le> m" using Min_le[of A q] Max_ge[of A q] by auto
  then show ?thesis by simp
qed

lemma rescaled_same: "rescaled (Fin m) (Fin m) (nan_to_num (Fin m)) = NaN"
  by (simp add: rescaled_def float64_0)

lemma rescale_uniform:
  assumes len: "length qs = 768"
    and lo: "np_min (map Fin qs) = Inr (Fin m)"
    and hi: "np_max (map Fin qs) = Inr (Fin m)"
  shows "qs = replicate 768 m"
    and "temps_to_rescaled_uints ub (map Fin qs) (Fin m) (Fin m) = Inr (replicate 768 (ub NaN))"
proof -
  from len have ne: "qs \<noteq> []" by auto
  from lo hi have "Min (set qs) = m" "Max (set qs) = m"
    by (simp_all add: np_min_Fin[OF ne] np_max_Fin[OF ne])
  then have "\<forall>q\<in>set qs. q = m"
    using all_equal_of_Min_eq_Max[of "set qs" m] ne by auto
  then show qs: "qs = replicate 768 m"
    using len by (metis replicate_eqI)
  show "temps_to_rescaled_uints ub (map Fin qs) (Fin m) (Fin m) = Inr (replicate 768 (ub NaN))"
    by (simp add: qs temps_to_rescaled_uints_def Let_def rescaled_def float64_0)
qed

text \<open>
  Claim C3, amended. There is no guard for a maximum equal to the minimum. For a frame of 768
  finite samples with equal extremes, the divisor \<open>Tmax - Tmin\<close> is 0 and the division is
  carried out: numpy does not raise, every rescaled value is \<open>0/0\<close>, that is NaN, and every
  pixel is the cast of NaN to 8 bits, a value that C leaves to the platform. The pixels are
  all equal, and all 0 on the platforms whose cast of NaN gives 0. No exception leaves
  \<open>__pull_raw_image\<close>.
\<close>

theorem equal_min_max_divides_zero_by_zero:
  "length qs = 768 \<and> np_min (map Fin qs) = Inr (Fin m) \<and> np_max (map Fin qs) = Inr (Fin m) \<longrightarrow>
     fl_sub (Fin m) (Fin m) = Fin 0
   \<and> (\<forall>q\<in>set qs. rescaled (Fin m) (Fin m) (nan_to_num (Fin q)) = NaN)
   \<and> temps_to_rescaled_uints ub (map Fin qs) (Fin m) (Fin m) = Inr (replicate 768 (ub NaN))
   \<and> (getFrame ev (blank_image c) = (map Fin qs, None) \<longrightarrow>
        snd (pull_raw_image ub ev c) = Inr (Norm (replicate 768 (ub NaN))))"
proof (intro impI, elim conjE)
  assume h: "length qs = 768" "np_min (map Fin qs) = Inr (Fin m)"
    "np_max (map Fin qs) = Inr (Fin m)"
  note u = rescale_uniform[OF h]
  have a: "\<forall>q\<in>set qs. rescaled (Fin m) (Fin m) (nan_to_num (Fin q)) = NaN"
    by (subst u(1)) (simp add: rescaled_def float64_0)
  have b: "snd (pull_raw_image ub ev c) = Inr (Norm (replicate 768 (ub NaN)))"
    if "getFrame ev (blank_image c) = (map Fin qs, None)"
    using that h u(2)[of ub] by (simp add: pull_raw_image_def)
  show "fl_sub (Fin m) (Fin m) = Fin 0
   \<and> (\<forall>q\<in>set qs. rescaled (Fin m) (Fin m) (nan_to_num (Fin q)) = NaN)
   \<and> temps_to_rescaled_uints ub (map Fin qs) (Fin m) (Fin m) = Inr (replicate 768 (ub NaN))
   \<and> (getFrame ev (blank_image c) = (map Fin qs, None) \<longrightarrow>
        snd (pull_raw_image ub ev c) = Inr (Norm (replicate 768 (ub NaN))))"
    using a b u(2)[of ub] by (simp add: float64_0)
qed

lemma uniform_frame_Fin: "uniform_frame = map Fin (replicate 768 20)"
  by (simp add: uniform_frame_def)

lemma np_min_uniform: "np_min uniform_frame = Inr (Fin 20)"
  using np_min_Fin[of "replicate 768 20"] by (simp add: uniform_frame_Fin del: map_replicate)

lemma np_max_uniform: "np_max uniform_frame = Inr (Fin 20)"
  using np_max_Fin[of "replicate 768 20"] by (simp add: uniform_frame_Fin del: map_replicate)

theorem equal_min_max_divides_zero_by_zero_witness:
  "fl_sub (Fin 20) (Fin 20) = Fin 0
   \<and> temps_to_rescaled_uints ub_zero uniform_frame (Fin 20) (Fin 20) = Inr (replicate 768 0)
   \<and> snd (pull_raw_image ub_zero (sensor_reads uniform_frame 1) (new_camera 0))
       = Inr (Norm (replicate 768 0))"
proof -
  have h: "length (replicate 768 (20::rat)) = 768"
    "np_min (map Fin (replicate 768 20)) = Inr (Fin 20)"
    "np_max (map Fin (replicate 768 20)) = Inr (Fin 20)"
    using np_min_uniform np_max_uniform by (simp_all add: uniform_frame_Fin del: map_replicate)
  have g: "getFrame (sensor_reads uniform_frame 1) (blank_image (new_camera 0))
             = (map Fin (replicate 768 20), None)"
    by (simp add: sensor_reads_def uniform_frame_Fin del: map_replicate)
  from equal_min_max_divides_zero_by_zero
         [of "replicate 768 20" 20 ub_zero "sensor_reads uniform_frame 1" "new_camera 0"] h g
  show ?thesis by (simp add: uniform_frame_Fin ub_zero_def del: map_replicate)
qed

text \<open>
  The claim as written fails at the frame of 768 samples 20.0: the extremes are both 20,
  the divisor is 0, and the value computed for a sample is \<open>0/0\<close>, NaN, not 0.
\<close>

theorem uniform_frame_is_divided_by_zero:
  "np_min uniform_frame = Inr (Fin 20) \<and> np_max uniform_frame = Inr (Fin 20)
   \<and> fl_sub (Fin 20) (Fin 20) = Fin 0
   \<and> nan_to_num (uniform_frame ! 0) = Fin 20
   \<and> fl_mul (fl_sub (Fin 20) (Fin 20)) (Fin 255) = Fin 0
   \<and> rescaled (Fin 20) (Fin 20) (nan_to_num (uniform_frame ! 0)) = fl_div (Fin 0) (Fin 0)
   \<and> fl_div (Fin 0) (Fin 0) = NaN"
  by (simp add: np_min_uniform np_max_uniform rescaled_def float64_0)
     (simp add: uniform_frame_def float64_0)

subsection \<open>The order of colouring and interpolation\<close>

lemma process_raw_image_5:
  "interpolation_index c = 5 \<Longrightarrow> colormap c = Inr cm \<Longrightarrow>
   process_raw_image c g
     = Inr (Img g ([Zoom 25, ApplyColorMap cm, Flip 1] @
              (if use_smoothing_filter c then [BilateralFilter 15 80 80] else [])))"
  by (simp add: process_raw_image_def)

lemma process_raw_image_6:
  "interpolation_index c = 6 \<Longrightarrow> colormap c = Inr cm \<Longrightarrow>
   process_raw_image c g
     = Inr (Img g ([Zoom 10, ApplyColorMap cm, Resize (800, 600) INTER_CUBIC, Flip 1] @
              (if use_smoothing_filter c then [BilateralFilter 15 80 80] else [])))"
  by (simp add: process_raw_image_def)

lemma process_raw_image_cv2:
  "interpolation_index c \<noteq> 5 \<Longrightarrow> interpolation_index c \<noteq> 6 \<Longrightarrow> colormap c = Inr cm \<Longrightarrow>
   interpolation c = Inr m \<Longrightarrow>
   process_raw_image c g
     = Inr (Img g ([ApplyColorMap cm, Resize (800, 600) m, Flip 1] @
              (if use_smoothing_filter c then [BilateralFilter 15 80 80] else [])))"
  by (simp add: process_raw_image_def)

text \<open>
  Claim C9, amended. For the two scipy selections the zoom comes first and the colormap after
  it: index 5 zooms the grid by 25 and then colours it; index 6 zooms by 10, colours, and
  then resizes the coloured image to 800 x 600 with the cubic interpolation of cv2. For every
  other index the colormap comes first and the resize of cv2 after it. So the scipy paths are
  the reverse of the cv2 paths, with the colouring after the zoom, not before it. Each path
  ends with the flip and, when the filter is on, the bilateral filter.
\<close>

theorem scipy_paths_zoom_before_colormap:
  "(interpolation_index c = 5 \<and> colormap c = Inr cm \<longrightarrow>
      process_raw_image c g
        = Inr (Img g ([Zoom 25, ApplyColorMap cm, Flip 1] @
                 (if use_smoothing_filter c then [BilateralFilter 15 80 80] else [])))
      \<and> \<not> colormap_first (ops (projr (process_raw_image c g))))
   \<and> (interpolation_index c = 6 \<and> colormap c = Inr cm \<longrightarrow>
      process_raw_image c g
        = Inr (Img g ([Zoom 10, ApplyColorMap cm, Resize (800, 600) INTER_CUBIC, Flip 1] @
                 (if use_smoothing_filter c then [BilateralFilter 15 80 80] else [])))
      \<and> \<not> colormap_first (ops (projr (process_raw_image c g))))
   \<and> (interpolation_index c \<noteq> 5 \<and> interpolation_index c \<noteq> 6 \<and> colormap c = Inr cm
        \<and> interpolation c = Inr m \<longrightarrow>
      process_raw_image c g
        = Inr (Img g ([ApplyColorMap cm, Resize (800, 600) m, Flip 1] @
                 (if use_smoothing_filter c then [BilateralFilter 15 80 80] else [])))
      \<and> colormap_first (ops (projr (process_raw_image c g))))"
  by (simp add: process_raw_image_5 process_raw_image_6 process_raw_image_cv2 colormap_first_def)

lemma colormap_new: "colormap (new_camera t\<lparr>interpolation_index := k\<rparr>) = Inr ''jet''"
  by (simp add: colormap_def py_index_def colormap_list_def new_camera_def)

theorem scipy_paths_zoom_before_colormap_witness:
  "process_raw_image (new_camera 0\<lparr>interpolation_index := 5\<rparr>) (Norm [])
     = Inr (Img (Norm []) [Zoom 25, ApplyColorMap ''jet'', Flip 1, BilateralFilter 15 80 80])
   \<and> process_raw_image (new_camera 0\<lparr>interpolation_index := 6\<rparr>) (Norm [])
     = Inr (Img (Norm []) [Zoom 10, ApplyColorMap ''jet'', Resize (800, 600) INTER_CUBIC, Flip 1,
                           BilateralFilter 15 80 80])
   \<and> process_raw_image (new_camera 0) (Norm [])
     = Inr (Img (Norm []) [ApplyColorMap ''jet'', Resize (800, 600) INTER_CUBIC, Flip 1,
                           BilateralFilter 15 80 80])"
proof -
  have i: "interpolation (new_camera 0) = Inr INTER_CUBIC"
    by (simp add: interpolation_def py_index_def interpolation_list_def new_camera_def)
  have k: "interpolation_index (new_camera 0) = 3" "use_smoothing_filter (new_camera 0)"
    by (simp_all add: new_camera_def)
  from scipy_paths_zoom_before_colormap
         [of "new_camera 0\<lparr>interpolation_index := 5\<rparr>" "''jet''" "Norm []" INTER_CUBIC]
       scipy_paths_zoom_before_colormap
         [of "new_camera 0\<lparr>interpolation_index := 6\<rparr>" "''jet''" "Norm []" INTER_CUBIC]
       scipy_paths_zoom_before_colormap [of "new_camera 0" "''jet''" "Norm []" INTER_CUBIC]
       colormap_new[where t=0 and k=5] colormap_new[where t=0 and k=6] colormap_new[where t=0 and k=3] i k
  show ?thesis by (simp add: new_camera_def)
qed

text \<open>
  The claim as written fails at index 5: the colormap is applied to the zoomed grid, after
  the only interpolation step of that path.
\<close>

theorem pure_scipy_colours_after_zoom:
  "process_raw_image (new_camera 0\<lparr>interpolation_index := 5\<rparr>) (Norm [])
     = Inr (Img (Norm []) [Zoom 25, ApplyColorMap ''jet'', Flip 1, BilateralFilter 15 80 80])
   \<and> \<not> colormap_first
         (ops (projr (process_raw_image (new_camera 0\<lparr>interpolation_index := 5\<rparr>) (Norm []))))"
  using process_raw_image_5[of "new_camera 0\<lparr>interpolation_index := 5\<rparr>" "''jet''" "Norm []"]
    colormap_new[where t=0 and k=5]
  by (simp add: colormap_first_def new_camera_def)

subsection \<open>The loop and the exception of the bus\<close>

lemma start_step:
  "\<not> is_exit_requested w \<Longrightarrow> tick ub ev w = (w', r) \<Longrightarrow>
   start ub (ev # evs) w =
     (case r of
        None \<Rightarrow> start ub evs w'
      | Some e \<Rightarrow>
          (case e of
             RuntimeError a m \<Rightarrow>
               (case m of
                  None \<Rightarrow> Raised AttributeError w'
                | Some s \<Rightarrow> if s = ''Too many retries'' then start ub evs w' else Raised e w')
           | _ \<Rightarrow> Raised e w'))"
  by simp

lemma pull_raises:
  "getFrame ev (blank_image c) = (buf, Some e) \<Longrightarrow> e \<noteq> ValueError \<Longrightarrow> e \<noteq> OSError \<Longrightarrow>
   pull_raw_image ub ev c = (c\<lparr>blank_image := buf\<rparr>, Inl e)"
  by (simp add: pull_raw_image_def pull_fault_def)

lemma tick_raises:
  "getFrame ev (blank_image (cam w)) = (buf, Some e) \<Longrightarrow> e \<noteq> ValueError \<Longrightarrow> e \<noteq> OSError \<Longrightarrow>
   tick ub ev w = (w\<lparr>cam := (cam w)\<lparr>blank_image := buf\<rparr>\<rparr>, Some e)"
  by (simp add: tick_def generate_frame_image_def pull_raises)

text \<open>
  Claim C8: the code does not do what the claim says. The handler of \<open>start\<close> compares
  \<open>error.message\<close> with the text of the retry fault, and a \<open>RuntimeError\<close> of Python 3 has
  no such attribute: reading it raises \<open>AttributeError\<close> inside the handler, which leaves
  the loop. The loop goes on to the next iteration only for an exception object that carries
  a \<open>message\<close> attribute with that text. An exception that is not a \<open>RuntimeError\<close> leaves
  the loop as it is.
\<close>

theorem retry_handler_reads_missing_attribute:
  "(\<not> is_exit_requested w \<and> tick ub ev w = (w', Some (RuntimeError a None)) \<longrightarrow>
      start ub (ev # evs) w = Raised AttributeError w')
   \<and> (\<not> is_exit_requested w \<and> tick ub ev w = (w', Some (RuntimeError a (Some ''Too many retries'')))
        \<longrightarrow> start ub (ev # evs) w = start ub evs w')
   \<and> (\<not> is_exit_requested w \<and> tick ub ev w = (w', Some e) \<and> \<not> is_RuntimeError e \<longrightarrow>
        start ub (ev # evs) w = Raised e w')"
  by (cases e) (simp_all add: start_step)

text \<open>
  At a new window whose first iteration meets \<open>RuntimeError("Too many retries")\<close>: the loop
  ends with \<open>AttributeError\<close>, and the second iteration never runs.
\<close>

theorem retry_handler_reads_missing_attribute_witness:
  "start ub_zero [sensor_fails too_many_retries 1, sensor_reads ramp_frame 2]
     (new_window (new_camera 0))
   = Raised AttributeError (new_window (new_camera 0))"
proof -
  have t: "tick ub_zero (sensor_fails too_many_retries 1) (new_window (new_camera 0))
             = (new_window (new_camera 0), Some (RuntimeError [''Too many retries''] None))"
    by (subst tick_raises[where buf = "blank_image (cam (new_window (new_camera 0)))"
          and e = too_many_retries])
       (simp_all add: sensor_fails_def too_many_retries_def)
  have x: "\<not> is_exit_requested (new_window (new_camera 0))"
    by (simp add: new_window_def add_button_def)
  from retry_handler_reads_missing_attribute
         [of "new_window (new_camera 0)" ub_zero "sensor_fails too_many_retries 1"
             "new_window (new_camera 0)" "[''Too many retries'']"
             "[sensor_reads ramp_frame 2]" ValueError] t x
  show ?thesis by simp
qed

subsection \<open>Buttons and the pointer\<close>

lemma fold_click:
  "fold (\<lambda>b w'. if inside x y b then invoke (callback b) w' else w') bs w
     = fold (\<lambda>b. invoke (callback b)) (filter (inside x y) bs) w"
  by (induction bs arbitrary: w) simp_all

lemma process_click_input_filter:
  "process_click_input EVENT_LBUTTONUP x y w
     = fold (\<lambda>b. invoke (callback b)) (filter (inside x y) (buttons w)) w"
  by (simp add: process_click_input_def fold_click)

lemma buttons_new_window:
  "buttons (new_window c) =
     [\<lparr>b_text = ''Save'', b_start = (0, 550), b_end = (80, 600), callback = QueueSaveSnapshot\<rparr>,
      \<lparr>b_text = ''Colormap'', b_start = (90, 550), b_end = (220, 600), callback = CycleColormap\<rparr>,
      \<lparr>b_text = ''Interpolation'', b_start = (230, 550), b_end = (380, 600),
        callback = CycleInterpolation\<rparr>,
      \<lparr>b_text = ''Exit'', b_start = (390, 550), b_end = (460, 600), callback = Exit\<rparr>]"
  by (simp add: new_window_def add_button_def)

lemma less_4_cases: "i < (4::nat) \<Longrightarrow> i = 0 \<or> i = 1 \<or> i = 2 \<or> i = 3"
  by arith

lemma default_buttons_disjoint:
  "i < 4 \<Longrightarrow> j < 4 \<Longrightarrow> i \<noteq> j \<Longrightarrow>
   \<not> (inside x y (buttons (new_window c) ! i) \<and> inside x y (buttons (new_window c) ! j))"
  by (drule less_4_cases, drule less_4_cases) (auto simp: buttons_new_window inside_def)

text \<open>
  Claim C6. On the release of the left button at \<open>(x, y)\<close>: when exactly one button \<open>b\<close> of
  the window has the point strictly inside its rectangle, the state after the call is the
  state after the callback of \<open>b\<close> and nothing else; when no button has, the state is
  unchanged. The method has no \<open>break\<close>: it invokes every button that holds the point, in the
  order of declaration; with at most one such button that is what the first-match-then-stop
  dispatch of the specification does. The four buttons of a new window are Save, Colormap,
  Interpolation and Exit, and no point is strictly inside the rectangles of two of them.
\<close>

theorem click_invokes_the_one_button_hit:
  "(filter (inside x y) (buttons w) = [b] \<longrightarrow>
      process_click_input EVENT_LBUTTONUP x y w = invoke (callback b) w)
   \<and> (filter (inside x y) (buttons w) = [] \<longrightarrow> process_click_input EVENT_LBUTTONUP x y w = w)
   \<and> (length (filter (inside x y) (buttons w)) \<le> 1 \<longrightarrow>
        process_click_input EVENT_LBUTTONUP x y w = handle_pointer_release x y w)
   \<and> map b_text (buttons (new_window c)) = [''Save'', ''Colormap'', ''Interpolation'', ''Exit'']
   \<and> (\<forall>i<4. \<forall>j<4. i \<noteq> j \<longrightarrow>
        \<not> (inside x y (buttons (new_window c) ! i) \<and> inside x y (buttons (new_window c) ! j)))"
proof -
  have a: "process_click_input EVENT_LBUTTONUP x y w = handle_pointer_release x y w"
    if "length (filter (inside x y) (buttons w)) \<le> 1"
  proof (cases "filter (inside x y) (buttons w)")
    case Nil
    then show ?thesis by (simp add: process_click_input_filter handle_pointer_release_def)
  next
    case (Cons b r)
    with that have "r = []" by simp
    with Cons show ?thesis by (simp add: process_click_input_filter handle_pointer_release_def)
  qed
  show ?thesis
    using a default_buttons_disjoint[of _ _ x y c]
    by (simp add: process_click_input_filter buttons_new_window[of c])
qed

theorem click_invokes_the_one_button_hit_witness:
  "process_click_input EVENT_LBUTTONUP 40 575 (new_window (new_camera 0))
     = (new_window (new_camera 0))\<lparr>queue_save_snapshot := True\<rparr>
   \<and> process_click_input EVENT_LBUTTONUP 85 575 (new_window (new_camera 0))
     = new_window (new_camera 0)
   \<and> process_click_input EVENT_LBUTTONUP 80 575 (new_window (new_camera 0))
     = new_window (new_camera 0)
   \<and> \<not> (inside 40 575 (buttons (new_window (new_camera 0)) ! 0)
        \<and> inside 40 575 (buttons (new_window (new_camera 0)) ! 1))"
proof -
  let ?w = "new_window (new_camera 0)"
  let ?save = "\<lparr>b_text = ''Save'', b_start = (0, 550), b_end = (80, 600),
                 callback = QueueSaveSnapshot\<rparr>"
  have f1: "filter (inside 40 575) (buttons ?w) = [?save]"
    by (simp add: buttons_new_window inside_def)
  have f2: "filter (inside 85 575) (buttons ?w) = []"
    by (simp add: buttons_new_window inside_def)
  have f3: "filter (inside 80 575) (buttons ?w) = []"
    by (simp add: buttons_new_window inside_def)
  from click_invokes_the_one_button_hit[of 40 575 ?w ?save "new_camera 0"]
       click_invokes_the_one_button_hit[of 85 575 ?w ?save "new_camera 0"]
       click_invokes_the_one_button_hit[of 80 575 ?w ?save "new_camera 0"]
       f1 f2 f3
  show ?thesis by (simp add: buttons_new_window inside_def)
qed

subsection \<open>Generating a frame\<close>

lemma pull_blank_image:
  "blank_image (fst (pull_raw_image ub ev c)) = fst (getFrame ev (blank_image c))"
  by (cases "getFrame ev (blank_image c)")
     (simp add: pull_raw_image_def pull_fault_def Let_def split: option.splits sum.splits)

lemma pull_caught:
  "getFrame ev (blank_image c) = (buf, Some e) \<Longrightarrow> e = OSError \<or> e = ValueError \<Longrightarrow>
   pull_raw_image ub ev c = (c\<lparr>blank_image := buf\<rparr>, Inr (Raw buf))"
  by (auto simp: pull_raw_image_def pull_fault_def)

lemma generate_blank_image:
  "blank_image (fst (generate_frame_image ub ev c)) = fst (getFrame ev (blank_image c))"
proof -
  obtain c1 r where p: "pull_raw_image ub ev c = (c1, r)" by (cases "pull_raw_image ub ev c")
  with pull_blank_image[of ub ev c] have "blank_image c1 = fst (getFrame ev (blank_image c))"
    by simp
  with p show ?thesis
    by (simp add: generate_frame_image_def split: sum.splits)
qed

lemma src_draw: "src (draw x im) = src im"
  by (simp add: draw_def)

lemma ops_draw: "ops (draw x im) = ops im @ [x]"
  by (simp add: draw_def)

lemma src_put_lines: "src (put_lines ls x y im) = src im"
  by (induction ls arbitrary: y im) (simp_all add: src_draw)

lemma ops_put_lines:
  "set (ops (put_lines ls x y im)) \<subseteq> set (ops im) \<union> {PutText l p | l p. l \<in> set ls}"
proof (induction ls arbitrary: y im)
  case Nil
  then show ?case by simp
next
  case (Cons l ls)
  from Cons[of "y + 22" "draw (PutText l (x, y)) im"] show ?case
    by (auto simp: ops_draw)
qed

lemma process_raw_image_src: "process_raw_image c g = Inr im \<Longrightarrow> src im = g"
  by (auto simp: process_raw_image_def Let_def split: if_splits sum.splits)

lemma process_raw_image_ops:
  "process_raw_image c g = Inr im \<Longrightarrow> x \<in> set (ops im) \<Longrightarrow>
   \<not> is_button_drawing x \<and> \<not> is_notification x"
  by (auto simp: process_raw_image_def Let_def split: if_splits sum.splits)

lemma add_image_text_src: "add_image_text ev c im = Inr im' \<Longrightarrow> src im' = src im"
  by (auto simp: add_image_text_def src_put_lines simp del: put_lines.simps
      split: option.splits sum.splits if_splits)

lemma add_image_text_ops:
  assumes "add_image_text ev c im = Inr im'" "x \<in> set (ops im')"
    and "\<forall>z\<in>set (ops im). \<not> is_button_drawing z \<and> \<not> is_notification z"
  shows "\<not> is_button_drawing x \<and> \<not> is_notification x"
proof -
  from assms(1) obtain ls where ls: "im' = put_lines ls 30 30 im"
    and caps: "\<forall>l\<in>set ls. \<forall>s. l \<noteq> Label s"
    by (auto simp: add_image_text_def simp del: put_lines.simps
        split: option.splits sum.splits if_splits)
  from assms(2) ops_put_lines[of ls 30 30 im]
  have "x \<in> set (ops im) \<or> (\<exists>l p. x = PutText l p \<and> l \<in> set ls)"
    by (auto simp: ls)
  then show ?thesis
  proof
    assume "x \<in> set (ops im)"
    with assms(3) show ?thesis by simp
  next
    assume "\<exists>l p. x = PutText l p \<and> l \<in> set ls"
    then obtain l p where x: "x = PutText l p" "l \<in> set ls" by auto
    with caps show ?thesis by (cases l) auto
  qed
qed

lemma generate_cases:
  assumes "generate_frame_image ub ev c = (c', Inr im)"
  obtains c1 g im0 where "pull_raw_image ub ev c = (c1, Inr g)"
    and "process_raw_image c1 g = Inr im0" and "add_image_text ev c1 im0 = Inr im"
    and "c' = c1\<lparr>timestamp := time_frame ev, current_frame_processed := Some True\<rparr>"
  using assms
  by (auto simp: generate_frame_image_def split: prod.splits sum.splits)

lemma generate_src:
  "generate_frame_image ub ev c = (c', Inr im) \<Longrightarrow> snd (pull_raw_image ub ev c) = Inr (src im)"
  by (erule generate_cases) (simp add: add_image_text_src process_raw_image_src)

lemma generate_clean:
  assumes "generate_frame_image ub ev c = (c', Inr im)"
  shows "\<not> list_ex is_button_drawing (ops im)" and "\<not> list_ex is_notification (ops im)"
proof -
  from assms obtain c1 g im0 where p: "process_raw_image c1 g = Inr im0"
    and a: "add_image_text ev c1 im0 = Inr im"
    by (rule generate_cases)
  have "\<not> is_button_drawing x \<and> \<not> is_notification x" if "x \<in> set (ops im)" for x
    using add_image_text_ops[OF a that] process_raw_image_ops[OF p] by blast
  then show "\<not> list_ex is_button_drawing (ops im)" "\<not> list_ex is_notification (ops im)"
    by (auto simp: list_ex_iff)
qed

lemma generate_extremes:
  assumes "generate_frame_image ub ev c = (c', Inr im)"
    and "pull_raw_image ub ev c = (c1, r)"
  shows "temp_min c' = temp_min c1" and "temp_max c' = temp_max c1"
  using assms by (auto elim!: generate_cases)

subsection \<open>A fault of the sensor after a read\<close>

text \<open>
  Claim C4: the code does not do what the claim says. \<open>blank_image\<close> is created as 768 zeros,
  but it is also the buffer every read is written into: after a read that filled it with the
  frame \<open>f\<close> the attribute holds \<open>f\<close>. When a later read raises \<open>OSError\<close> or \<open>ValueError\<close>
  and leaves the buffer as it found it, \<open>__pull_raw_image\<close> returns that buffer, the last
  frame, not zeros, and the generated image is made from it. What the claim says of the
  extremes holds: the fault is caught and \<open>temp_min\<close> and \<open>temp_max\<close> keep their values.
\<close>

theorem fault_returns_what_the_buffer_holds:
  "(getFrame ev0 (blank_image c0) = (f, None) \<longrightarrow>
      blank_image (fst (generate_frame_image ub ev0 c0)) = f)
   \<and> (getFrame ev (blank_image c) = (blank_image c, Some e) \<and> (e = OSError \<or> e = ValueError) \<longrightarrow>
        pull_raw_image ub ev c = (c, Inr (Raw (blank_image c)))
      \<and> (\<forall>c' im. generate_frame_image ub ev c = (c', Inr im) \<longrightarrow>
            src im = Raw (blank_image c) \<and> temp_min c' = temp_min c \<and> temp_max c' = temp_max c))"
proof -
  have a: "blank_image (fst (generate_frame_image ub ev0 c0)) = f"
    if "getFrame ev0 (blank_image c0) = (f, None)"
    using that by (simp add: generate_blank_image)
  have b: "pull_raw_image ub ev c = (c, Inr (Raw (blank_image c)))"
    if "getFrame ev (blank_image c) = (blank_image c, Some e)" "e = OSError \<or> e = ValueError"
    using pull_caught[OF that, of ub] by simp
  have c: "src im = Raw (blank_image c) \<and> temp_min c' = temp_min c \<and> temp_max c' = temp_max c"
    if "getFrame ev (blank_image c) = (blank_image c, Some e)" "e = OSError \<or> e = ValueError"
      "generate_frame_image ub ev c = (c', Inr im)" for c' im
    using generate_src[OF that(3)] generate_extremes[OF that(3) b[OF that(1,2)]] b[OF that(1,2)]
    by simp
  from a b c show ?thesis by blast
qed

lemma colormap_jet: "colormap_index c = 0 \<Longrightarrow> colormap c = Inr ''jet''"
  by (simp add: colormap_def py_index_def colormap_list_def)

lemma interpolation_cubic: "interpolation_index c = 3 \<Longrightarrow> interpolation c = Inr INTER_CUBIC"
  by (simp add: interpolation_def py_index_def interpolation_list_def)

lemma interpolation_label_cubic:
  "interpolation_index c = 3 \<Longrightarrow> interpolation_label c = Inr ''Inter Cubic''"
  by (simp add: interpolation_label_def py_index_def interpolation_labels_list_def)

lemma pull_ramp:
  "pull_raw_image ub (sensor_reads ramp_frame t) c
     = (c\<lparr>blank_image := ramp_frame, temp_min := Some (Fin 0), temp_max := Some (Fin 767),
          current_frame_processed := Some False\<rparr>,
        Inr (Norm (map (\<lambda>i. word_of_nat (i * 255 div 767)) [0..<768])))"
  by (simp add: pull_raw_image_def sensor_reads_def np_min_ramp np_max_ramp rescale_ramp)

lemma generate_ramp:
  assumes "colormap_index c = 0" "interpolation_index c = 3" "timestamp c \<noteq> t"
  shows "\<exists>im. generate_frame_image ub (sensor_reads ramp_frame t) c
            = (c\<lparr>blank_image := ramp_frame, temp_min := Some (Fin 0),
                 temp_max := Some (Fin 767), timestamp := t,
                 current_frame_processed := Some True\<rparr>, Inr im)"
proof -
  let ?c1 = "c\<lparr>blank_image := ramp_frame, temp_min := Some (Fin 0), temp_max := Some (Fin 767),
               current_frame_processed := Some False\<rparr>"
  have i: "colormap ?c1 = Inr ''jet''" "interpolation ?c1 = Inr INTER_CUBIC"
    "interpolation_label ?c1 = Inr ''Inter Cubic''"
    using assms by (simp_all add: colormap_jet interpolation_cubic interpolation_label_cubic)
  have t: "time_text (sensor_reads ramp_frame t) = t" "time_frame (sensor_reads ramp_frame t) = t"
    by (simp_all add: sensor_reads_def)
  show ?thesis
    using assms
    by (simp add: generate_frame_image_def pull_ramp process_raw_image_def add_image_text_def i t)
qed

lemma after_read_eq:
  "after_read = (new_camera 0)\<lparr>blank_image := ramp_frame, temp_min := Some (Fin 0),
                   temp_max := Some (Fin 767), timestamp := 1,
                   current_frame_processed := Some True\<rparr>"
proof -
  have "colormap_index (new_camera 0) = 0" "interpolation_index (new_camera 0) = 3"
    "timestamp (new_camera 0) \<noteq> 1"
    by (simp_all add: new_camera_def)
  from generate_ramp[OF this, of ub_zero] show ?thesis
    by (auto simp: after_read_def)
qed

lemma ramp_not_blank: "ramp_frame \<noteq> replicate 768 (Fin 0)"
proof
  assume "ramp_frame = replicate 768 (Fin 0)"
  then have "ramp_frame ! 1 = replicate 768 (Fin 0) ! 1" by simp
  then show False by (simp add: ramp_frame_def)
qed

text \<open>
  At a new camera that reads the frame 0.0, ..., 767.0 and then meets \<open>OSError\<close>: the image
  substituted for the fault is that frame, which is not the frame of zeros.
\<close>

theorem fault_returns_what_the_buffer_holds_witness:
  "blank_image (new_camera 0) = replicate (24 * 32) (Fin 0)
   \<and> blank_image after_read = ramp_frame
   \<and> pull_raw_image ub_zero (sensor_fails OSError 2) after_read = (after_read, Inr (Raw ramp_frame))
   \<and> ramp_frame \<noteq> replicate (24 * 32) (Fin 0)
   \<and> temp_min after_read = Some (Fin 0) \<and> temp_max after_read = Some (Fin 767)"
proof -
  have g0: "getFrame (sensor_reads ramp_frame 1) (blank_image (new_camera 0)) = (ramp_frame, None)"
    by (simp add: sensor_reads_def)
  have g: "getFrame (sensor_fails OSError 2) (blank_image after_read)
             = (blank_image after_read, Some OSError)"
    by (simp add: sensor_fails_def)
  from fault_returns_what_the_buffer_holds
         [of "sensor_reads ramp_frame 1" "new_camera 0" ramp_frame ub_zero
             "sensor_fails OSError 2" after_read OSError] g0 g
  have "blank_image after_read = ramp_frame"
    "pull_raw_image ub_zero (sensor_fails OSError 2) after_read
       = (after_read, Inr (Raw (blank_image after_read)))"
    by (simp_all add: after_read_def)
  then show ?thesis
    by (simp add: ramp_not_blank) (simp add: after_read_eq new_camera_def)
qed

text \<open>When the very first read of a new camera fails, the extremes are still \<open>None\<close> and
  writing them on the image raises \<open>TypeError\<close>.\<close>

lemma first_fault_raises_TypeError:
  "snd (generate_frame_image ub (sensor_fails OSError t) (new_camera t0)) = Inl TypeError"
  by (simp add: generate_frame_image_def pull_raw_image_def pull_fault_def sensor_fails_def
      process_raw_image_def colormap_def interpolation_def py_index_def colormap_list_def
      interpolation_list_def add_image_text_def new_camera_def)

subsection \<open>One iteration of the loop\<close>

lemma fold_keeps:
  assumes "\<And>x s. P (f x s) = P s"
  shows "P (fold f xs s) = P s"
  by (induction xs arbitrary: s) (simp_all add: assms)

lemma process_click_input_keeps:
  assumes "\<And>a s. P (invoke a s) = P s"
  shows "P (process_click_input event x y w) = P w"
proof -
  have "P (fold (\<lambda>b w'. if inside x y b then invoke (callback b) w' else w') bs w) = P w" for bs
    by (rule fold_keeps) (simp add: assms)
  then show ?thesis by (simp add: process_click_input_def)
qed

lemma process_events_keeps:
  assumes "\<And>a s. P (invoke a s) = P s"
  shows "P (process_events ev w) = P w"
proof -
  have "P (fold (\<lambda>(event, x, y). process_click_input event x y) (pointer ev) w) = P w"
    by (rule fold_keeps) (auto simp: process_click_input_keeps[where P = P, OF assms])
  then show ?thesis by (simp add: process_events_def Let_def assms del: invoke.simps)
qed

lemma invoke_files: "files (invoke a s) = files s"
  by (cases a) simp_all

lemma invoke_shown: "shown (invoke a s) = shown s"
  by (cases a) simp_all

lemma invoke_snapshot_saved_at: "snapshot_saved_at (invoke a s) = snapshot_saved_at s"
  by (cases a) simp_all

lemmas process_events_outputs =
  process_events_keeps[where P = files, OF invoke_files]
  process_events_keeps[where P = shown, OF invoke_shown]
  process_events_keeps[where P = snapshot_saved_at, OF invoke_snapshot_saved_at]

lemma process_events_quiet:
  "pointer ev = [] \<Longrightarrow> waitKey ev = - 1 \<Longrightarrow> process_events ev w = w"
  by (simp add: process_events_def)

lemma tick_unfold:
  "generate_frame_image ub ev (cam w) = (c', Inr im) \<Longrightarrow>
   tick ub ev w =
     (process_events ev (update_window ev
        (if queue_save_snapshot w then save_snapshot ev (w\<lparr>cam := c', current_image := Some im\<rparr>)
         else draw_buttons (w\<lparr>cam := c', current_image := Some im\<rparr>))), None)"
  by (simp add: tick_def Let_def)

lemma ops_fold_draw_button:
  "ops (fold draw_button bs im) =
     ops im @ concat (map (\<lambda>b. [Rectangle (b_start b) (b_end b),
                                  PutText (Label (b_text b))
                                    (fst (b_start b) + 20, snd (b_start b) + 30)]) bs)"
  by (induction bs arbitrary: im) (simp_all add: draw_button_def ops_draw)

lemma tick_save:
  assumes "queue_save_snapshot w" "generate_frame_image ub ev (cam w) = (c', Inr im)"
  shows "files (fst (tick ub ev w))
           = files w @ [(snapshot_output_path @ ''snapshot_'' @ strftime ev @ ''.jpg'', im)]"
    and "shown (fst (tick ub ev w))
           = shown w @ [if monotonic_update ev - monotonic_save ev < 1
                        then draw (PutText (Label ''Snapshot Saved!'') (30, 500)) im else im]"
    and "snapshot_saved_at (fst (tick ub ev w))
           = (if monotonic_update ev - monotonic_save ev < 1 then Some (monotonic_save ev)
              else None)"
  using assms
  by (simp_all add: tick_unfold process_events_outputs update_window_def save_snapshot_def Let_def)

lemma tick_draw:
  assumes "\<not> queue_save_snapshot w" "generate_frame_image ub ev (cam w) = (c', Inr im)"
  shows "files (fst (tick ub ev w)) = files w"
    and "shown (fst (tick ub ev w))
           = shown w @ [case snapshot_saved_at w of
                          None \<Rightarrow> fold draw_button (buttons w) im
                        | Some t \<Rightarrow>
                            if monotonic_update ev - t < 1
                            then draw (PutText (Label ''Snapshot Saved!'') (30, 500))
                                   (fold draw_button (buttons w) im)
                            else fold draw_button (buttons w) im]"
    and "snapshot_saved_at (fst (tick ub ev w))
           = (case snapshot_saved_at w of
                None \<Rightarrow> None
              | Some t \<Rightarrow> if monotonic_update ev - t < 1 then Some t else None)"
  using assms
  by (simp_all add: tick_unfold process_events_outputs update_window_def draw_buttons_def Let_def
      split: option.splits)

text \<open>
  Claim C10. On an iteration that finds a save queued and generates the image \<open>im\<close>, the
  iteration is: write, then update the window, then process the events. The file holds \<open>im\<close>
  as \<open>generate_frame_image\<close> returned it, which has no rectangle of a button and no text of
  the notification on it, whatever the time of an earlier save; right after the write the
  queued flag is down and the time of the save is recorded; and nothing later in the iteration
  changes the files.
\<close>

theorem snapshot_is_the_generated_image:
  "queue_save_snapshot w \<and> generate_frame_image ub ev (cam w) = (c', Inr im) \<longrightarrow>
     tick ub ev w
       = (process_events ev (update_window ev
            (save_snapshot ev (w\<lparr>cam := c', current_image := Some im\<rparr>))), None)
   \<and> files (save_snapshot ev (w\<lparr>cam := c', current_image := Some im\<rparr>))
       = files w @ [(snapshot_output_path @ ''snapshot_'' @ strftime ev @ ''.jpg'', im)]
   \<and> queue_save_snapshot (save_snapshot ev (w\<lparr>cam := c', current_image := Some im\<rparr>)) = False
   \<and> snapshot_saved_at (save_snapshot ev (w\<lparr>cam := c', current_image := Some im\<rparr>))
       = Some (monotonic_save ev)
   \<and> files (fst (tick ub ev w))
       = files w @ [(snapshot_output_path @ ''snapshot_'' @ strftime ev @ ''.jpg'', im)]
   \<and> \<not> list_ex is_button_drawing (ops im) \<and> \<not> list_ex is_notification (ops im)"
proof (intro impI, elim conjE)
  assume q: "queue_save_snapshot w" and g: "generate_frame_image ub ev (cam w) = (c', Inr im)"
  have "tick ub ev w
       = (process_events ev (update_window ev
            (save_snapshot ev (w\<lparr>cam := c', current_image := Some im\<rparr>))), None)"
    using q by (simp add: tick_unfold[OF g])
  moreover have "files (save_snapshot ev (w\<lparr>cam := c', current_image := Some im\<rparr>))
       = files w @ [(snapshot_output_path @ ''snapshot_'' @ strftime ev @ ''.jpg'', im)]"
    "queue_save_snapshot (save_snapshot ev (w\<lparr>cam := c', current_image := Some im\<rparr>)) = False"
    "snapshot_saved_at (save_snapshot ev (w\<lparr>cam := c', current_image := Some im\<rparr>))
       = Some (monotonic_save ev)"
    by (simp_all add: save_snapshot_def Let_def)
  moreover note tick_save(1)[OF q g] generate_clean[OF g]
  ultimately show "tick ub ev w
       = (process_events ev (update_window ev
            (save_snapshot ev (w\<lparr>cam := c', current_image := Some im\<rparr>))), None)
   \<and> files (save_snapshot ev (w\<lparr>cam := c', current_image := Some im\<rparr>))
       = files w @ [(snapshot_output_path @ ''snapshot_'' @ strftime ev @ ''.jpg'', im)]
   \<and> queue_save_snapshot (save_snapshot ev (w\<lparr>cam := c', current_image := Some im\<rparr>)) = False
   \<and> snapshot_saved_at (save_snapshot ev (w\<lparr>cam := c', current_image := Some im\<rparr>))
       = Some (monotonic_save ev)
   \<and> files (fst (tick ub ev w))
       = files w @ [(snapshot_output_path @ ''snapshot_'' @ strftime ev @ ''.jpg'', im)]
   \<and> \<not> list_ex is_button_drawing (ops im) \<and> \<not> list_ex is_notification (ops im)"
    by blast
qed

subsection \<open>The run of the scenario\<close>

lemma generate_Inr:
  assumes "\<exists>im. generate_frame_image ub ev c = (c', Inr im)"
  shows "generate_frame_image ub ev c = (c', Inr (projr (snd (generate_frame_image ub ev c))))"
  using assms by auto

lemma cam_save_queued: "cam save_queued = new_camera 0"
  by (simp add: save_queued_def new_window_def add_button_def)

lemma generate_first:
  "generate_frame_image ub_zero (sensor_reads ramp_frame 1) (cam save_queued)
     = (after_read,
        Inr (projr (snd (generate_frame_image ub_zero (sensor_reads ramp_frame 1)
                           (cam save_queued)))))"
proof -
  have "colormap_index (new_camera 0) = 0" "interpolation_index (new_camera 0) = 3"
    "timestamp (new_camera 0) \<noteq> 1"
    by (simp_all add: new_camera_def)
  from generate_ramp[OF this, of ub_zero] show ?thesis
    unfolding cam_save_queued after_read_eq by (rule generate_Inr)
qed

lemma sensor_reads_fields:
  "pointer (sensor_reads f t) = []" "waitKey (sensor_reads f t) = - 1"
  "monotonic_save (sensor_reads f t) = t" "monotonic_update (sensor_reads f t) = t"
  "strftime (sensor_reads f t) = ''2024-01-01_00-00-00''"
  by (simp_all add: sensor_reads_def)

lemma after_save_tick_fields:
  "queue_save_snapshot after_save_tick = False"
  "snapshot_saved_at after_save_tick = Some 1"
  "buttons after_save_tick = buttons (new_window (new_camera 0))"
  "cam after_save_tick = after_read"
  "files after_save_tick
     = [(''./thermal_snapshots/snapshot_2024-01-01_00-00-00.jpg'',
         projr (snd (generate_frame_image ub_zero (sensor_reads ramp_frame 1)
                       (cam save_queued))))]"
proof -
  have q: "queue_save_snapshot save_queued" by (simp add: save_queued_def)
  have e: "after_save_tick =
     update_window (sensor_reads ramp_frame 1)
       (save_snapshot (sensor_reads ramp_frame 1)
          (save_queued\<lparr>cam := after_read,
             current_image := Some (projr (snd (generate_frame_image ub_zero
                (sensor_reads ramp_frame 1) (cam save_queued))))\<rparr>))"
    unfolding after_save_tick_def
    by (simp add: tick_unfold[OF generate_first] q process_events_quiet sensor_reads_fields)
  show "queue_save_snapshot after_save_tick = False"
    "snapshot_saved_at after_save_tick = Some 1"
    "buttons after_save_tick = buttons (new_window (new_camera 0))"
    "cam after_save_tick = after_read"
    "files after_save_tick
     = [(''./thermal_snapshots/snapshot_2024-01-01_00-00-00.jpg'',
         projr (snd (generate_frame_image ub_zero (sensor_reads ramp_frame 1)
                       (cam save_queued))))]"
    unfolding e
    by (simp_all add: update_window_def save_snapshot_def Let_def sensor_reads_fields
        save_queued_def new_window_def add_button_def snapshot_output_path_def)
qed

lemma generate_later:
  assumes "t \<noteq> 1"
  shows "generate_frame_image ub_zero (sensor_reads ramp_frame t) (cam after_save_tick)
     = (after_read\<lparr>timestamp := t\<rparr>,
        Inr (projr (snd (generate_frame_image ub_zero (sensor_reads ramp_frame t)
                           (cam after_save_tick)))))"
proof -
  have "colormap_index after_read = 0" "interpolation_index after_read = 3"
    "timestamp after_read \<noteq> t"
    using assms by (simp_all add: after_read_eq new_camera_def)
  from generate_ramp[OF this, of ub_zero]
  have "\<exists>im. generate_frame_image ub_zero (sensor_reads ramp_frame t) after_read
            = (after_read\<lparr>timestamp := t\<rparr>, Inr im)"
    by (simp add: after_read_eq new_camera_def)
  then show ?thesis
    unfolding after_save_tick_fields by (rule generate_Inr)
qed

text \<open>
  At a window whose last save is half a second old and in which a save is queued again: the
  file written holds the image as generated, with no button and no notification on it.
\<close>

theorem snapshot_is_the_generated_image_witness:
  "snapshot_saved_at (after_save_tick\<lparr>queue_save_snapshot := True\<rparr>) = Some 1
   \<and> monotonic_save (sensor_reads ramp_frame (3 / 2)) - 1 < 1
   \<and> files (fst (tick ub_zero (sensor_reads ramp_frame (3 / 2))
                   (after_save_tick\<lparr>queue_save_snapshot := True\<rparr>)))
       = files after_save_tick @
         [(''./thermal_snapshots/snapshot_2024-01-01_00-00-00.jpg'',
           projr (snd (generate_frame_image ub_zero (sensor_reads ramp_frame (3 / 2))
                         (cam after_save_tick))))]
   \<and> \<not> list_ex is_button_drawing
         (ops (projr (snd (generate_frame_image ub_zero (sensor_reads ramp_frame (3 / 2))
                             (cam after_save_tick)))))
   \<and> \<not> list_ex is_notification
         (ops (projr (snd (generate_frame_image ub_zero (sensor_reads ramp_frame (3 / 2))
                             (cam after_save_tick)))))"
proof -
  let ?w = "after_save_tick\<lparr>queue_save_snapshot := True\<rparr>"
  let ?ev = "sensor_reads ramp_frame (3 / 2)"
  let ?im = "projr (snd (generate_frame_image ub_zero ?ev (cam after_save_tick)))"
  have ne: "(3 / 2 :: rat) \<noteq> 1" by simp
  have cw: "cam ?w = cam after_save_tick" by simp
  have g: "generate_frame_image ub_zero ?ev (cam ?w) = (after_read\<lparr>timestamp := 3 / 2\<rparr>, Inr ?im)"
    unfolding cw by (rule generate_later[OF ne])
  have q: "queue_save_snapshot ?w" by simp
  have fn: "snapshot_output_path @ ''snapshot_'' @ strftime ?ev @ ''.jpg''
              = ''./thermal_snapshots/snapshot_2024-01-01_00-00-00.jpg''"
    by (simp add: snapshot_output_path_def sensor_reads_fields)
  have fw: "files ?w = files after_save_tick" by simp
  have a: "snapshot_saved_at ?w = Some 1" by (simp add: after_save_tick_fields(2))
  have b: "monotonic_save ?ev - 1 < 1" by (simp add: sensor_reads_fields)
  note t = snapshot_is_the_generated_image
             [of ?w ub_zero ?ev "after_read\<lparr>timestamp := 3 / 2\<rparr>" ?im]
  from t q g have r:
    "files (fst (tick ub_zero ?ev ?w))
       = files ?w @ [(snapshot_output_path @ ''snapshot_'' @ strftime ?ev @ ''.jpg'', ?im)]"
    "\<not> list_ex is_button_drawing (ops ?im)" "\<not> list_ex is_notification (ops ?im)"
    by blast+
  from r[unfolded fn fw] a b show ?thesis by blast
qed

subsection \<open>Saving, the notification and the buttons\<close>

text \<open>
  Claim C5, amended. Let an iteration generate the image \<open>im\<close>; it has no drawing of the
  window on it. If a save is queued, the iteration writes \<open>im\<close> to the file, draws no button,
  and shows \<open>im\<close> with the notification on it (the save was less than a second ago). If no
  save is queued, the buttons are drawn on every iteration: while the last save is less than
  a second old the image shown has the buttons and, over them, the notification; on the first
  iteration a second or more after the save the time of the save is cleared and the image
  shown has the buttons and no notification. The notification is drawn in addition to the
  buttons, not in their place.
\<close>

theorem notification_is_drawn_over_the_buttons:
  "generate_frame_image ub ev (cam w) = (c', Inr im) \<longrightarrow>
     \<not> list_ex is_button_drawing (ops im) \<and> \<not> list_ex is_notification (ops im)
   \<and> (queue_save_snapshot w \<longrightarrow>
        files (fst (tick ub ev w))
          = files w @ [(snapshot_output_path @ ''snapshot_'' @ strftime ev @ ''.jpg'', im)]
      \<and> shown (fst (tick ub ev w))
          = shown w @ [if monotonic_update ev - monotonic_save ev < 1
                       then draw (PutText (Label ''Snapshot Saved!'') (30, 500)) im else im]
      \<and> snapshot_saved_at (fst (tick ub ev w))
          = (if monotonic_update ev - monotonic_save ev < 1 then Some (monotonic_save ev)
             else None))
   \<and> (\<not> queue_save_snapshot w \<and> snapshot_saved_at w = Some t \<and> monotonic_update ev - t < 1 \<longrightarrow>
        files (fst (tick ub ev w)) = files w
      \<and> shown (fst (tick ub ev w))
          = shown w @ [draw (PutText (Label ''Snapshot Saved!'') (30, 500))
                         (fold draw_button (buttons w) im)]
      \<and> snapshot_saved_at (fst (tick ub ev w)) = Some t)
   \<and> (\<not> queue_save_snapshot w \<and> snapshot_saved_at w = Some t \<and> \<not> monotonic_update ev - t < 1 \<longrightarrow>
        files (fst (tick ub ev w)) = files w
      \<and> shown (fst (tick ub ev w)) = shown w @ [fold draw_button (buttons w) im]
      \<and> snapshot_saved_at (fst (tick ub ev w)) = None)
   \<and> ops (fold draw_button (buttons w) im)
       = ops im @ concat (map (\<lambda>b. [Rectangle (b_start b) (b_end b),
                                      PutText (Label (b_text b))
                                        (fst (b_start b) + 20, snd (b_start b) + 30)])
                            (buttons w))"
proof
  assume g: "generate_frame_image ub ev (cam w) = (c', Inr im)"
  note s = tick_save[OF _ g] and d = tick_draw[OF _ g]
  have a: "queue_save_snapshot w \<longrightarrow>
        files (fst (tick ub ev w))
          = files w @ [(snapshot_output_path @ ''snapshot_'' @ strftime ev @ ''.jpg'', im)]
      \<and> shown (fst (tick ub ev w))
          = shown w @ [if monotonic_update ev - monotonic_save ev < 1
                       then draw (PutText (Label ''Snapshot Saved!'') (30, 500)) im else im]
      \<and> snapshot_saved_at (fst (tick ub ev w))
          = (if monotonic_update ev - monotonic_save ev < 1 then Some (monotonic_save ev)
             else None)"
    using s by simp
  have b: "\<not> queue_save_snapshot w \<and> snapshot_saved_at w = Some t \<and> monotonic_update ev - t < 1 \<longrightarrow>
        files (fst (tick ub ev w)) = files w
      \<and> shown (fst (tick ub ev w))
          = shown w @ [draw (PutText (Label ''Snapshot Saved!'') (30, 500))
                         (fold draw_button (buttons w) im)]
      \<and> snapshot_saved_at (fst (tick ub ev w)) = Some t"
    using d by simp
  have c: "\<not> queue_save_snapshot w \<and> snapshot_saved_at w = Some t \<and> \<not> monotonic_update ev - t < 1 \<longrightarrow>
        files (fst (tick ub ev w)) = files w
      \<and> shown (fst (tick ub ev w)) = shown w @ [fold draw_button (buttons w) im]
      \<and> snapshot_saved_at (fst (tick ub ev w)) = None"
    using d by simp
  from a b c generate_clean[OF g] ops_fold_draw_button[of "buttons w" im]
  show "\<not> list_ex is_button_drawing (ops im) \<and> \<not> list_ex is_notification (ops im)
   \<and> (queue_save_snapshot w \<longrightarrow>
        files (fst (tick ub ev w))
          = files w @ [(snapshot_output_path @ ''snapshot_'' @ strftime ev @ ''.jpg'', im)]
      \<and> shown (fst (tick ub ev w))
          = shown w @ [if monotonic_update ev - monotonic_save ev < 1
                       then draw (PutText (Label ''Snapshot Saved!'') (30, 500)) im else im]
      \<and> snapshot_saved_at (fst (tick ub ev w))
          = (if monotonic_update ev - monotonic_save ev < 1 then Some (monotonic_save ev)
             else None))
   \<and> (\<not> queue_save_snapshot w \<and> snapshot_saved_at w = Some t \<and> monotonic_update ev - t < 1 \<longrightarrow>
        files (fst (tick ub ev w)) = files w
      \<and> shown (fst (tick ub ev w))
          = shown w @ [draw (PutText (Label ''Snapshot Saved!'') (30, 500))
                         (fold draw_button (buttons w) im)]
      \<and> snapshot_saved_at (fst (tick ub ev w)) = Some t)
   \<and> (\<not> queue_save_snapshot w \<and> snapshot_saved_at w = Some t \<and> \<not> monotonic_update ev - t < 1 \<longrightarrow>
        files (fst (tick ub ev w)) = files w
      \<and> shown (fst (tick ub ev w)) = shown w @ [fold draw_button (buttons w) im]
      \<and> snapshot_saved_at (fst (tick ub ev w)) = None)
   \<and> ops (fold draw_button (buttons w) im)
       = ops im @ concat (map (\<lambda>b. [Rectangle (b_start b) (b_end b),
                                      PutText (Label (b_text b))
                                        (fst (b_start b) + 20, snd (b_start b) + 30)])
                            (buttons w))"
    by blast
qed

theorem notification_is_drawn_over_the_buttons_witness:
  "files after_save_tick
     = files save_queued @
       [(''./thermal_snapshots/snapshot_2024-01-01_00-00-00.jpg'',
         projr (snd (generate_frame_image ub_zero (sensor_reads ramp_frame 1) (cam save_queued))))]
   \<and> shown after_save_tick
     = shown save_queued @
       [draw (PutText (Label ''Snapshot Saved!'') (30, 500))
          (projr (snd (generate_frame_image ub_zero (sensor_reads ramp_frame 1)
                         (cam save_queued))))]
   \<and> shown half_second_later
     = shown after_save_tick @
       [draw (PutText (Label ''Snapshot Saved!'') (30, 500))
          (fold draw_button (buttons after_save_tick)
             (projr (snd (generate_frame_image ub_zero (sensor_reads ramp_frame (3 / 2))
                            (cam after_save_tick)))))]
   \<and> shown (fst (tick ub_zero (sensor_reads ramp_frame 5) after_save_tick))
     = shown after_save_tick @
       [fold draw_button (buttons after_save_tick)
          (projr (snd (generate_frame_image ub_zero (sensor_reads ramp_frame 5)
                         (cam after_save_tick))))]
   \<and> snapshot_saved_at (fst (tick ub_zero (sensor_reads ramp_frame 5) after_save_tick)) = None"
proof -
  let ?e1 = "sensor_reads ramp_frame 1"
  let ?e2 = "sensor_reads ramp_frame (3 / 2)"
  let ?e3 = "sensor_reads ramp_frame 5"
  let ?im1 = "projr (snd (generate_frame_image ub_zero ?e1 (cam save_queued)))"
  let ?im2 = "projr (snd (generate_frame_image ub_zero ?e2 (cam after_save_tick)))"
  let ?im3 = "projr (snd (generate_frame_image ub_zero ?e3 (cam after_save_tick)))"
  have q: "queue_save_snapshot save_queued" by (simp add: save_queued_def)
  have nq: "\<not> queue_save_snapshot after_save_tick"
    and at: "snapshot_saved_at after_save_tick = Some 1"
    by (simp_all add: after_save_tick_fields)
  have fn: "snapshot_output_path @ ''snapshot_'' @ strftime ?e1 @ ''.jpg''
              = ''./thermal_snapshots/snapshot_2024-01-01_00-00-00.jpg''"
    by (simp add: snapshot_output_path_def sensor_reads_fields)
  have c1: "monotonic_update ?e1 - monotonic_save ?e1 < 1"
    and c2: "monotonic_update ?e2 - 1 < 1"
    and c3: "\<not> monotonic_update ?e3 - 1 < 1"
    by (simp_all add: sensor_reads_fields)
  have ne: "(3 / 2 :: rat) \<noteq> 1" "(5::rat) \<noteq> 1" by simp_all
  note t1 = notification_is_drawn_over_the_buttons
              [of ub_zero ?e1 save_queued after_read ?im1 0]
  note t2 = notification_is_drawn_over_the_buttons
              [of ub_zero ?e2 after_save_tick "after_read\<lparr>timestamp := 3 / 2\<rparr>" ?im2 1]
  note t3 = notification_is_drawn_over_the_buttons
              [of ub_zero ?e3 after_save_tick "after_read\<lparr>timestamp := 5\<rparr>" ?im3 1]
  from t1 generate_first q have one:
    "files (fst (tick ub_zero ?e1 save_queued))
       = files save_queued @ [(snapshot_output_path @ ''snapshot_'' @ strftime ?e1 @ ''.jpg'', ?im1)]"
    "shown (fst (tick ub_zero ?e1 save_queued))
       = shown save_queued @ [if monotonic_update ?e1 - monotonic_save ?e1 < 1
                              then draw (PutText (Label ''Snapshot Saved!'') (30, 500)) ?im1
                              else ?im1]"
    by blast+
  from t2 generate_later[OF ne(1)] nq at c2 have two:
    "shown (fst (tick ub_zero ?e2 after_save_tick))
       = shown after_save_tick @
         [draw (PutText (Label ''Snapshot Saved!'') (30, 500))
            (fold draw_button (buttons after_save_tick) ?im2)]"
    by blast
  from t3 generate_later[OF ne(2)] nq at c3 have three:
    "shown (fst (tick ub_zero ?e3 after_save_tick))
       = shown after_save_tick @ [fold draw_button (buttons after_save_tick) ?im3]"
    "snapshot_saved_at (fst (tick ub_zero ?e3 after_save_tick)) = None"
    by blast+
  from one[unfolded fn if_P[OF c1], folded after_save_tick_def]
       two[folded half_second_later_def] three
  show ?thesis by blast
qed

text \<open>
  The claim as written fails half a second after the save: the image shown has the
  notification and the rectangles of the buttons on it.
\<close>

theorem buttons_are_drawn_under_the_notification:
  "snapshot_saved_at after_save_tick = Some 1
   \<and> monotonic_update (sensor_reads ramp_frame (3 / 2)) - 1 < 1
   \<and> list_ex is_notification (ops (last (shown half_second_later)))
   \<and> list_ex is_button_drawing (ops (last (shown half_second_later)))"
proof -
  let ?e2 = "sensor_reads ramp_frame (3 / 2)"
  let ?im2 = "projr (snd (generate_frame_image ub_zero ?e2 (cam after_save_tick)))"
  have q: "\<not> queue_save_snapshot after_save_tick"
    and at: "snapshot_saved_at after_save_tick = Some 1"
    and bs: "buttons after_save_tick = buttons (new_window (new_camera 0))"
    by (simp_all add: after_save_tick_fields)
  have ne: "(3 / 2 :: rat) \<noteq> 1" by simp
  have c2: "monotonic_update ?e2 - 1 < 1" by (simp add: sensor_reads_fields)
  note d = tick_draw(2)[OF q generate_later[OF ne], folded half_second_later_def]
  have "shown half_second_later
     = shown after_save_tick @
       [draw (PutText (Label ''Snapshot Saved!'') (30, 500))
          (fold draw_button (buttons (new_window (new_camera 0))) ?im2)]"
    unfolding d at bs by (simp only: option.case if_P[OF c2])
  then have l: "ops (last (shown half_second_later))
     = ops (fold draw_button (buttons (new_window (new_camera 0))) ?im2)
       @ [PutText (Label ''Snapshot Saved!'') (30, 500)]"
    by (simp only: last_snoc ops_draw)
  have "list_ex is_notification (ops (last (shown half_second_later)))"
    unfolding l by simp
  moreover have "list_ex is_button_drawing (ops (last (shown half_second_later)))"
    unfolding l ops_fold_draw_button buttons_new_window by simp
  ultimately show ?thesis using at c2 by blast
qed

end
